theory Spec2Isabelle
  imports Complex_Main
begin

section \<open>Errors\<close>

text \<open>
  Every failure that the simulation core raises itself is a Python \<^verbatim>\<open>ValueError\<close>
  carrying a message; the event loop of the discrete-event library adds a
  \<^verbatim>\<open>RuntimeError\<close>, and a float division by zero raises
  \<^verbatim>\<open>ZeroDivisionError\<close>. A function that can raise returns \<open>error + 'a\<close>, with
  \<open>Inl\<close> the exception.
\<close>

datatype error = ValueError string | RuntimeError string | ZeroDivisionError

section \<open>Replenishment policy (logic/policy.py)\<close>

definition order_up_to_sS :: "int \<Rightarrow> int \<Rightarrow> int \<Rightarrow> error + int" where
  "order_up_to_sS inventory_position s S =
     (if s > S then Inl (ValueError ''Policy requires s <= S'')
      else if inventory_position \<le> s then Inr (max 0 (S - inventory_position))
      else Inr 0)"

section \<open>Inventory actors (actors/base.py, actors/store.py, actors/distribution_center.py)\<close>

record inventory_state =
  on_hand :: int
  backorder :: int
  on_order :: int

definition inventory_position :: "inventory_state \<Rightarrow> int" where
  "inventory_position ivs = on_hand ivs + on_order ivs - backorder ivs"

text \<open>
  The actors' \<^verbatim>\<open>env\<close> and \<^verbatim>\<open>name\<close> fields are never read by the simulation
  core and are left out of the records.
\<close>

record store =
  inventory :: inventory_state
  demand_units :: int
  fulfilled_units :: int
  stockout_days :: int
  orders_placed :: int

record distribution_center =
  dc_inventory :: inventory_state
  dc_orders_placed :: int

definition consume_demand :: "store \<Rightarrow> int \<Rightarrow> store" where
  "consume_demand st demand_qty0 =
     (let demand_qty = max 0 demand_qty0;
          st1 = st\<lparr>demand_units := demand_units st + demand_qty\<rparr>;
          fulfilled = min (on_hand (inventory st1)) demand_qty;
          st2 = st1\<lparr>inventory := (inventory st1)\<lparr>on_hand := on_hand (inventory st1) - fulfilled\<rparr>\<rparr>;
          st3 = st2\<lparr>fulfilled_units := fulfilled_units st2 + fulfilled\<rparr>;
          unmet = demand_qty - fulfilled
      in if unmet > 0
         then st3\<lparr>inventory := (inventory st3)\<lparr>backorder := backorder (inventory st3) + unmet\<rparr>,
                  stockout_days := stockout_days st3 + 1\<rparr>
         else st3)"

definition store_receive :: "store \<Rightarrow> int \<Rightarrow> store" where
  "store_receive st quantity =
     (if quantity \<le> 0 then st
      else
        let used = (if backorder (inventory st) > 0 then min (backorder (inventory st)) quantity else 0);
            st1 = (if backorder (inventory st) > 0
                   then st\<lparr>inventory := (inventory st)\<lparr>backorder := backorder (inventory st) - used\<rparr>\<rparr>
                   else st);
            quantity1 = quantity - used
        in st1\<lparr>inventory := (inventory st1)\<lparr>on_hand := on_hand (inventory st1) + quantity1\<rparr>\<rparr>)"

definition dc_receive :: "distribution_center \<Rightarrow> int \<Rightarrow> distribution_center" where
  "dc_receive d quantity =
     (if quantity \<le> 0 then d
      else d\<lparr>dc_inventory := (dc_inventory d)\<lparr>on_hand := on_hand (dc_inventory d) + quantity\<rparr>\<rparr>)"

text \<open>\<^verbatim>\<open>ship_to_store\<close> returns the shipped quantity and the updated actor.\<close>

definition ship_to_store :: "distribution_center \<Rightarrow> int \<Rightarrow> int \<times> distribution_center" where
  "ship_to_store d quantity =
     (if quantity \<le> 0 then (0, d)
      else
        let shipped = min (on_hand (dc_inventory d)) quantity
        in (shipped, d\<lparr>dc_inventory := (dc_inventory d)\<lparr>on_hand := on_hand (dc_inventory d) - shipped\<rparr>\<rparr>))"

section \<open>Python floats (IEEE 754 binary64)\<close>

text \<open>
  A Python float is a finite binary64 number, an infinity or a NaN; the two zeros are
  not distinguished. \<open>binary64 x\<close> is the float that an arithmetic operation returns
  when its exact result is the real \<open>x\<close>: the nearest number with a significand of 53
  bits and an exponent of at least \<^verbatim>\<open>-1022\<close> (so results below \<^verbatim>\<open>2**-1022\<close> lose
  precision and results of at most \<^verbatim>\<open>2**-1075\<close> become zero), ties going to the even
  significand, and an infinity when that number reaches \<^verbatim>\<open>2**1024\<close>. The operators
  are those of Python: \<^verbatim>\<open>/\<close> raises \<^verbatim>\<open>ZeroDivisionError\<close> on a zero divisor,
  \<^verbatim>\<open>math.log\<close> and \<^verbatim>\<open>math.sqrt\<close> raise \<^verbatim>\<open>ValueError\<close> outside their domain;
  the two library functions are taken to round correctly.
\<close>

datatype pyfloat = Finite real | PosInf | NegInf | NaN

definition round_ties_even :: "real \<Rightarrow> int" where
  "round_ties_even x =
     (let f = \<lfloor>x\<rfloor>
      in if x - of_int f < 1 / 2 then f
         else if 1 / 2 < x - of_int f then f + 1
         else if even f then f else f + 1)"

definition binary64 :: "real \<Rightarrow> pyfloat" where
  "binary64 x =
     (if x = 0 then Finite 0
      else
        let e = max \<lfloor>log 2 \<bar>x\<bar>\<rfloor> (- 1022);
            ulp = 2 powr (of_int e - 52);
            y = of_int (round_ties_even (x / ulp)) * ulp
        in if \<bar>y\<bar> < 2 ^ 1024 then Finite y else if 0 < x then PosInf else NegInf)"

fun float_sign :: "pyfloat \<Rightarrow> int" where
  "float_sign (Finite a) = (if a < 0 then - 1 else if a = 0 then 0 else 1)"
| "float_sign PosInf = 1"
| "float_sign NegInf = - 1"
| "float_sign NaN = 0"

fun py_neg :: "pyfloat \<Rightarrow> pyfloat" where
  "py_neg (Finite a) = Finite (- a)"
| "py_neg PosInf = NegInf"
| "py_neg NegInf = PosInf"
| "py_neg NaN = NaN"

fun py_add :: "pyfloat \<Rightarrow> pyfloat \<Rightarrow> pyfloat" where
  "py_add (Finite a) (Finite b) = binary64 (a + b)"
| "py_add NaN y = NaN"
| "py_add x NaN = NaN"
| "py_add PosInf NegInf = NaN"
| "py_add NegInf PosInf = NaN"
| "py_add PosInf y = PosInf"
| "py_add NegInf y = NegInf"
| "py_add x PosInf = PosInf"
| "py_add x NegInf = NegInf"

definition py_sub :: "pyfloat \<Rightarrow> pyfloat \<Rightarrow> pyfloat" where
  "py_sub x y = py_add x (py_neg y)"

fun py_mul :: "pyfloat \<Rightarrow> pyfloat \<Rightarrow> pyfloat" where
  "py_mul (Finite a) (Finite b) = binary64 (a * b)"
| "py_mul NaN y = NaN"
| "py_mul x NaN = NaN"
| "py_mul x y =
     (if float_sign x * float_sign y = 0 then NaN
      else if 0 < float_sign x * float_sign y then PosInf else NegInf)"

fun py_truediv :: "pyfloat \<Rightarrow> pyfloat \<Rightarrow> error + pyfloat" where
  "py_truediv x (Finite b) =
     (if b = 0 then Inl ZeroDivisionError
      else case x of
             Finite a \<Rightarrow> Inr (binary64 (a / b))
           | NaN \<Rightarrow> Inr NaN
           | _ \<Rightarrow> Inr (if 0 < float_sign x * float_sign (Finite b) then PosInf else NegInf))"
| "py_truediv x NaN = Inr NaN"
| "py_truediv (Finite a) y = Inr (Finite 0)"
| "py_truediv x y = Inr NaN"

fun math_log :: "pyfloat \<Rightarrow> error + pyfloat" where
  "math_log (Finite a) =
     (if a \<le> 0 then Inl (ValueError ''math domain error'') else Inr (binary64 (ln a)))"
| "math_log PosInf = Inr PosInf"
| "math_log NegInf = Inl (ValueError ''math domain error'')"
| "math_log NaN = Inr NaN"

fun math_sqrt :: "pyfloat \<Rightarrow> error + pyfloat" where
  "math_sqrt (Finite a) =
     (if a < 0 then Inl (ValueError ''math domain error'') else Inr (binary64 (sqrt a)))"
| "math_sqrt PosInf = Inr PosInf"
| "math_sqrt NegInf = Inl (ValueError ''math domain error'')"
| "math_sqrt NaN = Inr NaN"

text \<open>
  The configuration, the draws, the lead times and the clock of the environment are
  finite floats, kept as reals. Where the code adds two of them (the clock plus a
  delay, the lead time plus the disruption delay) the sum is the float sum, which need
  not be the real sum. An overflowing sum is infinite in the program; as a time it lies
  beyond every stop time that is a float, and so does the real sum that the model keeps
  in its place.
  \<open>fadd\<close> builds in the identity that the code relies on for every event it schedules
  without delay: adding the float \<^verbatim>\<open>0.0\<close> returns the other operand.
\<close>

definition binary64_add :: "real \<Rightarrow> real \<Rightarrow> real" where
  "binary64_add a b = (case py_add (Finite a) (Finite b) of Finite c \<Rightarrow> c | _ \<Rightarrow> a + b)"

definition fadd :: "real \<Rightarrow> real \<Rightarrow> real" where
  "fadd a b = (if b = 0 then a else if a = 0 then b else binary64_add a b)"

section \<open>Random source (numpy.random.Generator)\<close>

text \<open>
  The simulation draws from one \<^verbatim>\<open>numpy.random.Generator\<close> per replication. The
  generator is a library object, so its behaviour is a parameter of the model: a state
  type \<open>'g\<close> and the three draws the code makes, each returning the drawn value and
  the advanced state. \<open>rng_seeded\<close> is \<^verbatim>\<open>default_rng(seed)\<close> for an integer seed.
  The lognormal draw receives the floats that the code computes for it, which can be
  infinite; the value it returns is taken to be a finite float.
\<close>

record 'g generator =
  rng_poisson :: "'g \<Rightarrow> real \<Rightarrow> int \<times> 'g"
  rng_lognormal :: "'g \<Rightarrow> pyfloat \<Rightarrow> pyfloat \<Rightarrow> real \<times> 'g"
  rng_random :: "'g \<Rightarrow> real \<times> 'g"
  rng_seeded :: "int \<Rightarrow> 'g"

section \<open>Sampling helpers (distributions.py, chaos/events.py)\<close>

definition poisson_demand :: "'g generator \<Rightarrow> 'g \<Rightarrow> real \<Rightarrow> error + (int \<times> 'g)" where
  "poisson_demand np g lam =
     (if lam < 0 then Inl (ValueError ''demand lambda must be >= 0'')
      else Inr (rng_poisson np g lam))"

text \<open>
  \<^verbatim>\<open>_lognormal_mu_sigma_from_mean_std\<close> computes in floats: the two parameters are
  finite floats, every intermediate result is rounded, the division raises on a zero
  divisor, and the results can be infinite.
\<close>

definition lognormal_mu_sigma_from_mean_std :: "real \<Rightarrow> real \<Rightarrow> error + (pyfloat \<times> pyfloat)" where
  "lognormal_mu_sigma_from_mean_std mean std =
     (if mean \<le> 0 then Inl (ValueError ''lognormal mean must be > 0'')
      else if std < 0 then Inl (ValueError ''lognormal std must be >= 0'')
      else if std = 0 then
        (case math_log (Finite mean) of
           Inl e \<Rightarrow> Inl e
         | Inr log_mean \<Rightarrow> Inr (log_mean, Finite 0))
      else
        let variance = py_mul (Finite std) (Finite std)
        in case py_truediv variance (py_mul (Finite mean) (Finite mean)) of
             Inl e \<Rightarrow> Inl e
           | Inr ratio \<Rightarrow>
               (case math_log (py_add (Finite 1) ratio) of
                  Inl e \<Rightarrow> Inl e
                | Inr sigma2 \<Rightarrow>
                    (case math_log (Finite mean) of
                       Inl e \<Rightarrow> Inl e
                     | Inr log_mean \<Rightarrow>
                         let mu = py_sub log_mean (py_mul (Finite 0.5) sigma2)
                         in case math_sqrt sigma2 of
                              Inl e \<Rightarrow> Inl e
                            | Inr sigma \<Rightarrow> Inr (mu, sigma))))"

definition lognormal_days :: "'g generator \<Rightarrow> 'g \<Rightarrow> real \<Rightarrow> real \<Rightarrow> error + (real \<times> 'g)" where
  "lognormal_days np g mean_days std_days =
     (case lognormal_mu_sigma_from_mean_std mean_days std_days of
        Inl e \<Rightarrow> Inl e
      | Inr (mu, sigma) \<Rightarrow>
          if sigma = Finite 0 then Inr (mean_days, g)
          else Inr (rng_lognormal np g mu sigma))"

definition disruption_delay :: "'g generator \<Rightarrow> 'g \<Rightarrow> real \<Rightarrow> real \<Rightarrow> error + (real \<times> 'g)" where
  "disruption_delay np g probability_per_shipment delay_days =
     (if probability_per_shipment < 0 \<or> probability_per_shipment > 1
      then Inl (ValueError ''disruption_probability_per_shipment must be in [0,1]'')
      else if delay_days < 0 then Inl (ValueError ''disruption_delay_days must be >= 0'')
      else if probability_per_shipment = 0 \<or> delay_days = 0 then Inr (0, g)
      else
        let (u, g1) = rng_random np g
        in Inr (if u < probability_per_shipment then delay_days else 0, g1))"

text \<open>
  A generator for concrete runs: the state counts the draws made so far; every Poisson
  draw is 30 units, every lognormal draw is 3/2 days and every uniform draw is 1/4.
\<close>

definition counting_generator :: "nat generator" where
  "counting_generator =
     \<lparr>rng_poisson = (\<lambda>g lam. (30, Suc g)),
      rng_lognormal = (\<lambda>g mu sigma. (3 / 2, Suc g)),
      rng_random = (\<lambda>g. (1 / 4, Suc g)),
      rng_seeded = (\<lambda>seed. 0)\<rparr>"

text \<open>
  A generator whose draws depend on the seed: the state starts at the seed and counts
  up, and a Poisson draw is the state itself.
\<close>

definition seeded_generator :: "nat generator" where
  "seeded_generator =
     \<lparr>rng_poisson = (\<lambda>g lam. (int g, Suc g)),
      rng_lognormal = (\<lambda>g mu sigma. (3 / 2, Suc g)),
      rng_random = (\<lambda>g. (1 / 4, Suc g)),
      rng_seeded = (\<lambda>seed. nat seed)\<rparr>"

section \<open>Configuration and results (models.py)\<close>

record demand_peak =
  start_day :: int
  end_day :: int
  multiplier :: real

record simulation_config =
  days :: int
  demand_lambda_per_day :: real
  demand_peaks :: "demand_peak list"
  s_store :: int
  S_store :: int
  s_dc :: int
  S_dc :: int
  initial_on_hand_store :: int
  initial_on_hand_dc :: int
  lead_time_mean_days :: real
  lead_time_std_days :: real
  disruption_probability_per_shipment :: real
  disruption_delay_days :: real
  holding_cost_per_unit_per_day :: real
  seed :: "int option"

record kpis =
  kpi_service_level :: real
  kpi_fill_rate :: real
  kpi_demand_units :: int
  kpi_fulfilled_units :: int
  kpi_stockout_days :: int
  kpi_avg_on_hand_store :: real
  kpi_avg_on_hand_dc :: real
  kpi_avg_backorder_store :: real
  kpi_total_orders_store :: int
  kpi_total_orders_dc :: int

text \<open>One entry of the \<^verbatim>\<open>timeseries\<close> list (a dict of floats in the source).\<close>

record row =
  day :: real
  store_on_hand :: real
  store_backorder :: real
  store_on_order :: real
  dc_on_hand :: real
  dc_on_order :: real

record simulation_result =
  res_config :: simulation_config
  res_kpis :: kpis
  res_timeseries :: "row list"

record monte_carlo_summary =
  replications :: int
  kpi_mean :: "(string \<times> real) list"
  kpi_std :: "(string \<times> real) list"

record monte_carlo_result =
  mc_config :: simulation_config
  mc_summary :: monte_carlo_summary
  mc_samples :: "kpis list"

section \<open>The discrete-event environment (simpy.Environment as runner.py uses it)\<close>

text \<open>
  \<^verbatim>\<open>run_single\<close> drives two kinds of generator processes through a
  \<^verbatim>\<open>simpy.Environment\<close>: the daily process and one arrival process per shipment.
  The environment keeps a heap of entries \<open>(time, priority, eid, event)\<close>;
  \<^verbatim>\<open>schedule\<close> pushes an entry at the float sum of \<open>now\<close> and the delay with the
  next event id, and
  \<^verbatim>\<open>step\<close> pops the least entry in the order of Python tuples (time, then priority,
  then event id), sets \<open>now\<close> to its time and resumes the process waiting for it.
  Creating a process schedules its \<^verbatim>\<open>Initialize\<close> event (urgent, delay 0); a
  \<^verbatim>\<open>timeout\<close> schedules a normal event; a generator that returns schedules its own
  process event (normal, delay 0), for which nobody waits here.

  The events that occur in \<^verbatim>\<open>run_single\<close>:
  \<^item> \<open>Init_daily\<close>: the \<^verbatim>\<open>Initialize\<close> of \<^verbatim>\<open>daily_process\<close>;
  \<^item> \<open>Wake_daily d\<close>: the \<^verbatim>\<open>timeout(1.0)\<close> after which the loop goes on with \<open>day = d\<close>;
  \<^item> \<open>Init_arrival r q lead\<close>: the \<^verbatim>\<open>Initialize\<close> of an \<^verbatim>\<open>arrival_process\<close>
    whose closure holds the receiver, the quantity and \<^verbatim>\<open>lead_time_days\<close>;
  \<^item> \<open>Wake_arrival r q lead born\<close>: the \<^verbatim>\<open>timeout(lead_time_days)\<close> of that process;
    \<open>born\<close> is the time at which the timeout was created, which the library does not
    keep: the model carries it so that properties can refer to the day a shipment was
    scheduled on;
  \<^item> \<open>Process_done\<close>: the process event of a generator that has returned;
  \<^item> \<open>Until\<close>: the stop event of \<^verbatim>\<open>run(until=...)\<close>.
\<close>

datatype receiver = Store_actor | DC_actor

datatype event =
    Init_daily
  | Wake_daily nat
  | Init_arrival receiver int real
  | Wake_arrival receiver int real real
  | Process_done
  | Until

type_synonym entry = "real \<times> nat \<times> nat \<times> event"

definition URGENT :: nat where "URGENT = 0"

definition NORMAL :: nat where "NORMAL = 1"

record 'g sim =
  env_now :: real
  env_queue :: "entry list"
  env_eid :: nat
  random_generator :: 'g
  sim_store :: store
  sim_dc :: distribution_center
  timeseries :: "row list"

definition schedule :: "event \<Rightarrow> nat \<Rightarrow> real \<Rightarrow> 'g sim \<Rightarrow> 'g sim" where
  "schedule ev priority delay s =
     s\<lparr>env_queue := env_queue s @ [(fadd (env_now s) delay, priority, env_eid s, ev)],
       env_eid := Suc (env_eid s)\<rparr>"

text \<open>
  The heap is modelled by the list of its entries; \<open>heappop\<close> returns the least entry
  in the order of Python tuples and the list without it. Event ids are unique, so the
  comparison never reaches the event itself.
\<close>

fun entry_less :: "entry \<Rightarrow> entry \<Rightarrow> bool" where
  "entry_less (t1, p1, i1, e1) (t2, p2, i2, e2) =
     (t1 < t2 \<or> (t1 = t2 \<and> (p1 < p2 \<or> (p1 = p2 \<and> i1 < i2))))"

fun least_entry :: "entry \<Rightarrow> entry list \<Rightarrow> entry" where
  "least_entry m [] = m"
| "least_entry m (x # xs) = least_entry (if entry_less x m then x else m) xs"

definition heappop :: "entry list \<Rightarrow> (entry \<times> entry list) option" where
  "heappop q =
     (case q of
        [] \<Rightarrow> None
      | x # xs \<Rightarrow> (let m = least_entry x xs in Some (m, remove1 m q)))"

section \<open>The daily orchestrator (runner.py)\<close>

definition demand_multiplier_for_day :: "simulation_config \<Rightarrow> int \<Rightarrow> real" where
  "demand_multiplier_for_day cfg d =
     fold (\<lambda>peak m. if start_day peak \<le> d \<and> d \<le> end_day peak then m * multiplier peak else m)
       (demand_peaks cfg) 1"

definition receiver_inventory :: "receiver \<Rightarrow> 'g sim \<Rightarrow> inventory_state" where
  "receiver_inventory r s =
     (case r of Store_actor \<Rightarrow> inventory (sim_store s) | DC_actor \<Rightarrow> dc_inventory (sim_dc s))"

definition add_on_order :: "receiver \<Rightarrow> int \<Rightarrow> 'g sim \<Rightarrow> 'g sim" where
  "add_on_order r quantity s =
     (case r of
        Store_actor \<Rightarrow>
          s\<lparr>sim_store := (sim_store s)\<lparr>inventory :=
              (inventory (sim_store s))\<lparr>on_order := on_order (inventory (sim_store s)) + quantity\<rparr>\<rparr>\<rparr>
      | DC_actor \<Rightarrow>
          s\<lparr>sim_dc := (sim_dc s)\<lparr>dc_inventory :=
              (dc_inventory (sim_dc s))\<lparr>on_order := on_order (dc_inventory (sim_dc s)) + quantity\<rparr>\<rparr>\<rparr>)"

definition receive :: "receiver \<Rightarrow> int \<Rightarrow> 'g sim \<Rightarrow> 'g sim" where
  "receive r quantity s =
     (case r of
        Store_actor \<Rightarrow> s\<lparr>sim_store := store_receive (sim_store s) quantity\<rparr>
      | DC_actor \<Rightarrow> s\<lparr>sim_dc := dc_receive (sim_dc s) quantity\<rparr>)"

text \<open>
  \<^verbatim>\<open>schedule_inbound_shipment\<close>: the part that runs at the call, up to
  \<^verbatim>\<open>environment.process(arrival_process())\<close>.
\<close>

definition schedule_inbound_shipment ::
    "'g generator \<Rightarrow> simulation_config \<Rightarrow> receiver \<Rightarrow> int \<Rightarrow> 'g sim \<Rightarrow> error + 'g sim" where
  "schedule_inbound_shipment np cfg r quantity s =
     (if quantity \<le> 0 then Inr s
      else
        let s1 = add_on_order r quantity s
        in case lognormal_days np (random_generator s1) (lead_time_mean_days cfg) (lead_time_std_days cfg) of
             Inl e \<Rightarrow> Inl e
           | Inr (lead0, g1) \<Rightarrow>
               (case disruption_delay np g1 (disruption_probability_per_shipment cfg)
                       (disruption_delay_days cfg) of
                  Inl e \<Rightarrow> Inl e
                | Inr (extra, g2) \<Rightarrow>
                    Inr (schedule (Init_arrival r quantity (fadd lead0 extra)) URGENT 0
                           (s1\<lparr>random_generator := g2\<rparr>))))"

text \<open>
  The body of \<^verbatim>\<open>arrival_process\<close> after its timeout: the quantity leaves
  \<^verbatim>\<open>on_order\<close> and is handed to the receiver.
\<close>

definition deliver :: "receiver \<Rightarrow> int \<Rightarrow> 'g sim \<Rightarrow> 'g sim" where
  "deliver r quantity s = receive r quantity (add_on_order r (- quantity) s)"

text \<open>The loop body of \<^verbatim>\<open>daily_process\<close>, in the order of the source.\<close>

definition realize_demand :: "'g generator \<Rightarrow> simulation_config \<Rightarrow> nat \<Rightarrow> 'g sim \<Rightarrow> error + 'g sim" where
  "realize_demand np cfg d s =
     (let demand_lambda = demand_lambda_per_day cfg * demand_multiplier_for_day cfg (int d)
      in case poisson_demand np (random_generator s) demand_lambda of
           Inl e \<Rightarrow> Inl e
         | Inr (qty, g1) \<Rightarrow>
             Inr (s\<lparr>random_generator := g1, sim_store := consume_demand (sim_store s) qty\<rparr>))"

definition clear_backorder :: "'g generator \<Rightarrow> simulation_config \<Rightarrow> 'g sim \<Rightarrow> error + 'g sim" where
  "clear_backorder np cfg s =
     (if backorder (inventory (sim_store s)) > 0
      then
        let (shipped_quantity, dc1) = ship_to_store (sim_dc s) (backorder (inventory (sim_store s)));
            s1 = s\<lparr>sim_dc := dc1\<rparr>
        in if shipped_quantity > 0
           then schedule_inbound_shipment np cfg Store_actor shipped_quantity s1
           else Inr s1
      else Inr s)"

definition replenish_store :: "'g generator \<Rightarrow> simulation_config \<Rightarrow> 'g sim \<Rightarrow> error + 'g sim" where
  "replenish_store np cfg s =
     (case order_up_to_sS (inventory_position (inventory (sim_store s))) (s_store cfg) (S_store cfg) of
        Inl e \<Rightarrow> Inl e
      | Inr store_replenishment_quantity \<Rightarrow>
          if store_replenishment_quantity > 0
          then
            let s1 = s\<lparr>sim_store := (sim_store s)\<lparr>orders_placed := orders_placed (sim_store s) + 1\<rparr>\<rparr>;
                (shipped_quantity, dc1) = ship_to_store (sim_dc s1) store_replenishment_quantity;
                s2 = s1\<lparr>sim_dc := dc1\<rparr>
            in case (if shipped_quantity > 0
                     then schedule_inbound_shipment np cfg Store_actor shipped_quantity s2
                     else Inr s2) of
                 Inl e \<Rightarrow> Inl e
               | Inr s3 \<Rightarrow>
                   let unshipped_quantity = store_replenishment_quantity - shipped_quantity
                   in if unshipped_quantity > 0
                      then Inr (s3\<lparr>sim_store := (sim_store s3)\<lparr>inventory :=
                             (inventory (sim_store s3))\<lparr>backorder :=
                                backorder (inventory (sim_store s3)) + unshipped_quantity\<rparr>\<rparr>\<rparr>)
                      else Inr s3
          else Inr s)"

definition replenish_dc :: "'g generator \<Rightarrow> simulation_config \<Rightarrow> 'g sim \<Rightarrow> error + 'g sim" where
  "replenish_dc np cfg s =
     (case order_up_to_sS (inventory_position (dc_inventory (sim_dc s))) (s_dc cfg) (S_dc cfg) of
        Inl e \<Rightarrow> Inl e
      | Inr dc_replenishment_quantity \<Rightarrow>
          if dc_replenishment_quantity > 0
          then schedule_inbound_shipment np cfg DC_actor dc_replenishment_quantity
                 (s\<lparr>sim_dc := (sim_dc s)\<lparr>dc_orders_placed := dc_orders_placed (sim_dc s) + 1\<rparr>\<rparr>)
          else Inr s)"

definition record_row :: "nat \<Rightarrow> 'g sim \<Rightarrow> 'g sim" where
  "record_row d s =
     s\<lparr>timeseries := timeseries s @
        [\<lparr>day = real d,
          store_on_hand = real_of_int (on_hand (inventory (sim_store s))),
          store_backorder = real_of_int (backorder (inventory (sim_store s))),
          store_on_order = real_of_int (on_order (inventory (sim_store s))),
          dc_on_hand = real_of_int (on_hand (dc_inventory (sim_dc s))),
          dc_on_order = real_of_int (on_order (dc_inventory (sim_dc s)))\<rparr>]\<rparr>"

definition daily_iteration :: "'g generator \<Rightarrow> simulation_config \<Rightarrow> nat \<Rightarrow> 'g sim \<Rightarrow> error + 'g sim" where
  "daily_iteration np cfg d s =
     (case realize_demand np cfg d s of
        Inl e \<Rightarrow> Inl e
      | Inr s1 \<Rightarrow>
          (case clear_backorder np cfg s1 of
             Inl e \<Rightarrow> Inl e
           | Inr s2 \<Rightarrow>
               (case replenish_store np cfg s2 of
                  Inl e \<Rightarrow> Inl e
                | Inr s3 \<Rightarrow>
                    (case replenish_dc np cfg s3 of
                       Inl e \<Rightarrow> Inl e
                     | Inr s4 \<Rightarrow> Inr (record_row d s4)))))"

text \<open>
  What one \<^verbatim>\<open>step\<close> of the environment yields: the run goes on, the stop event was
  reached, or an exception leaves \<^verbatim>\<open>run\<close>. An exception raised inside a process
  fails that process; its failure event is popped at the same time stamp and re-raised
  by \<^verbatim>\<open>run\<close>, so \<^verbatim>\<open>run_single\<close> raises it and returns nothing: the model
  raises it at once.
\<close>

datatype 'g outcome = Running "'g sim" | Stopped "'g sim" | Raised error

text \<open>
  Resuming \<^verbatim>\<open>daily_process\<close> at loop index \<open>d\<close>: one iteration ending in
  \<^verbatim>\<open>yield environment.timeout(1.0)\<close>, or the end of the generator when
  \<^verbatim>\<open>range(config.days)\<close> is exhausted.
\<close>

definition resume_daily :: "'g generator \<Rightarrow> simulation_config \<Rightarrow> nat \<Rightarrow> 'g sim \<Rightarrow> 'g outcome" where
  "resume_daily np cfg d s =
     (if int d < days cfg
      then (case daily_iteration np cfg d s of
              Inl e \<Rightarrow> Raised e
            | Inr s' \<Rightarrow> Running (schedule (Wake_daily (Suc d)) NORMAL 1 s'))
      else Running (schedule Process_done NORMAL 0 s))"

definition step :: "'g generator \<Rightarrow> simulation_config \<Rightarrow> 'g sim \<Rightarrow> 'g outcome" where
  "step np cfg s =
     (case heappop (env_queue s) of
        None \<Rightarrow> Raised (RuntimeError ''No scheduled events left but until event was not triggered'')
      | Some ((t, p, i, ev), q') \<Rightarrow>
          let s1 = s\<lparr>env_now := t, env_queue := q'\<rparr>
          in case ev of
               Until \<Rightarrow> Stopped s1
             | Process_done \<Rightarrow> Running s1
             | Init_daily \<Rightarrow> resume_daily np cfg 0 s1
             | Wake_daily d \<Rightarrow> resume_daily np cfg d s1
             | Init_arrival r quantity lead \<Rightarrow>
                 if lead < 0 then Raised (ValueError ''Negative delay'')
                 else Running (schedule (Wake_arrival r quantity lead t) NORMAL lead s1)
             | Wake_arrival r quantity lead born \<Rightarrow>
                 Running (schedule Process_done NORMAL 0 (deliver r quantity s1)))"

section \<open>Notions used to reason about the event loop\<close>

text \<open>
  \<open>pipeline r q\<close> is the total quantity of the arrival processes for receiver \<open>r\<close>
  in the heap \<open>q\<close>. The loop body only appends \<^verbatim>\<open>Initialize\<close> events of arrival
  processes to the heap, at the current time, with consecutive event ids, and adds their
  quantities to the receivers' \<open>on_order\<close>: \<open>body_step k s s'\<close> says that \<open>s'\<close>
  comes from \<open>s\<close> in this way with at most \<open>k\<close> new events. \<open>stock_ok\<close> collects
  the sign conditions on the actors' counters. \<open>pending_work\<close> bounds the number of
  events still to be processed: each event weighs more than the events its processing
  schedules.
\<close>

fun event_of :: "entry \<Rightarrow> event" where
  "event_of (t, p, i, ev) = ev"

fun pending_quantity :: "receiver \<Rightarrow> entry \<Rightarrow> int" where
  "pending_quantity r (t, p, i, Init_arrival r' q lead) = (if r' = r then q else 0)"
| "pending_quantity r (t, p, i, Wake_arrival r' q lead born) = (if r' = r then q else 0)"
| "pending_quantity r (t, p, i, ev) = 0"

definition pipeline :: "receiver \<Rightarrow> entry list \<Rightarrow> int" where
  "pipeline r q = sum_list (map (pending_quantity r) q)"

definition init_entries :: "real \<Rightarrow> nat \<Rightarrow> entry list \<Rightarrow> bool" where
  "init_entries t e0 new \<longleftrightarrow>
     (\<forall>k < length new. \<exists>r q lead. new ! k = (t, URGENT, e0 + k, Init_arrival r q lead) \<and> 0 < q)"

definition body_step :: "nat \<Rightarrow> 'g sim \<Rightarrow> 'g sim \<Rightarrow> bool" where
  "body_step k s s' \<longleftrightarrow>
     env_now s' = env_now s \<and> timeseries s' = timeseries s \<and>
     (\<exists>new. env_queue s' = env_queue s @ new \<and> length new \<le> k \<and>
        env_eid s' = env_eid s + length new \<and>
        init_entries (env_now s) (env_eid s) new \<and>
        (\<forall>r. on_order (receiver_inventory r s') = on_order (receiver_inventory r s) + pipeline r new))"

definition stock_ok :: "'g sim \<Rightarrow> bool" where
  "stock_ok s \<longleftrightarrow>
     0 \<le> on_hand (inventory (sim_store s)) \<and> 0 \<le> backorder (inventory (sim_store s)) \<and>
     0 \<le> on_hand (dc_inventory (sim_dc s)) \<and>
     0 \<le> fulfilled_units (sim_store s) \<and> fulfilled_units (sim_store s) \<le> demand_units (sim_store s) \<and>
     0 \<le> stockout_days (sim_store s)"

fun work :: "simulation_config \<Rightarrow> event \<Rightarrow> nat" where
  "work cfg Until = 0"
| "work cfg Process_done = 1"
| "work cfg (Wake_arrival r q lead born) = 2"
| "work cfg (Init_arrival r q lead) = 3"
| "work cfg (Wake_daily d) = 2 + 11 * (nat (days cfg) - d)"
| "work cfg Init_daily = 2 + 11 * nat (days cfg)"

definition pending_work :: "simulation_config \<Rightarrow> entry list \<Rightarrow> nat" where
  "pending_work cfg q = sum_list (map (\<lambda>e. work cfg (event_of e)) q)"

section \<open>The event loop terminates\<close>

lemma fadd_0 [simp]: "fadd a 0 = a" "fadd 0 b = b"
  by (simp_all add: fadd_def)

lemma entry_less_trans: "entry_less a b \<Longrightarrow> entry_less b c \<Longrightarrow> entry_less a c"
  by (cases a; cases b; cases c) auto

lemma entry_less_cotrans: "\<not> entry_less a b \<Longrightarrow> entry_less a c \<Longrightarrow> entry_less b c"
  by (cases a; cases b; cases c) auto

lemma least_entry_mem: "least_entry m xs \<in> set (m # xs)"
  by (induction xs arbitrary: m) auto

lemma least_entry_least: "e \<in> set (m # xs) \<Longrightarrow> \<not> entry_less e (least_entry m xs)"
proof (induction xs arbitrary: m e)
  case Nil
  then show ?case by (cases m) auto
next
  case (Cons x xs)
  show ?case
  proof (cases "entry_less x m")
    case True
    then have le: "least_entry m (x # xs) = least_entry x xs" by simp
    show ?thesis
    proof (cases "e = m")
      case True
      have "\<not> entry_less x (least_entry x xs)" using Cons.IH [where m = x and e = x] by simp
      with \<open>entry_less x m\<close> have "\<not> entry_less m (least_entry x xs)"
        using entry_less_trans by blast
      with True le show ?thesis by simp
    next
      case False
      with Cons.prems have "e \<in> set (x # xs)" by auto
      then show ?thesis using Cons.IH [where m = x and e = e] le by simp
    qed
  next
    case False
    then have le: "least_entry m (x # xs) = least_entry m xs" by simp
    show ?thesis
    proof (cases "e = x")
      case True
      have "\<not> entry_less m (least_entry m xs)" using Cons.IH [where m = m and e = m] by simp
      with False have "\<not> entry_less x (least_entry m xs)"
        using entry_less_cotrans by blast
      with True le show ?thesis by simp
    next
      case False
      with Cons.prems have "e \<in> set (m # xs)" by auto
      then show ?thesis using Cons.IH [where m = m and e = e] le by simp
    qed
  qed
qed

lemma heappop_Some:
  assumes "heappop q = Some (m, q')"
  shows "m \<in> set q" and "q' = remove1 m q" and "\<forall>e \<in> set q. \<not> entry_less e m"
proof -
  from assms obtain x xs where q: "q = x # xs" and m: "m = least_entry x xs" and q': "q' = remove1 m q"
    by (auto simp: heappop_def Let_def split: list.splits)
  show "m \<in> set q" using least_entry_mem [of x xs] q m by simp
  show "q' = remove1 m q" by (rule q')
  show "\<forall>e \<in> set q. \<not> entry_less e m" using least_entry_least [of _ x xs] q m by blast
qed

lemma heappop_None: "heappop q = None \<longleftrightarrow> q = []"
  by (auto simp: heappop_def Let_def split: list.splits)

lemma body_step_0:
  assumes "env_now s' = env_now s" "timeseries s' = timeseries s" "env_queue s' = env_queue s"
    "env_eid s' = env_eid s"
    "on_order (inventory (sim_store s')) = on_order (inventory (sim_store s))"
    "on_order (dc_inventory (sim_dc s')) = on_order (dc_inventory (sim_dc s))"
  shows "body_step 0 s s'"
  unfolding body_step_def using assms
  by (auto simp: init_entries_def pipeline_def receiver_inventory_def split: receiver.splits)

lemma body_step_mono: "body_step j s s' \<Longrightarrow> j \<le> k \<Longrightarrow> body_step k s s'"
  unfolding body_step_def by fastforce

lemma init_entries_append:
  "init_entries t e0 xs \<Longrightarrow> init_entries t (e0 + length xs) ys \<Longrightarrow> init_entries t e0 (xs @ ys)"
  unfolding init_entries_def
proof (intro allI impI)
  fix k
  assume xs: "\<forall>k<length xs. \<exists>r q lead. xs ! k = (t, URGENT, e0 + k, Init_arrival r q lead) \<and> 0 < q"
    and ys: "\<forall>k<length ys. \<exists>r q lead. ys ! k = (t, URGENT, e0 + length xs + k, Init_arrival r q lead) \<and> 0 < q"
    and k: "k < length (xs @ ys)"
  show "\<exists>r q lead. (xs @ ys) ! k = (t, URGENT, e0 + k, Init_arrival r q lead) \<and> 0 < q"
  proof (cases "k < length xs")
    case True
    then show ?thesis using xs by (simp add: nth_append)
  next
    case False
    then have "k - length xs < length ys" using k by simp
    then obtain r q lead where
      "ys ! (k - length xs) = (t, URGENT, e0 + length xs + (k - length xs), Init_arrival r q lead) \<and> 0 < q"
      using ys by blast
    with False show ?thesis by (simp add: nth_append)
  qed
qed

lemma body_step_trans:
  assumes "body_step j s s'" and "body_step k s' s''"
  shows "body_step (j + k) s s''"
proof -
  from assms(1) obtain xs where xs: "env_queue s' = env_queue s @ xs" "length xs \<le> j"
      "env_eid s' = env_eid s + length xs" "init_entries (env_now s) (env_eid s) xs"
      "\<forall>r. on_order (receiver_inventory r s') = on_order (receiver_inventory r s) + pipeline r xs"
      and a: "env_now s' = env_now s" "timeseries s' = timeseries s"
    unfolding body_step_def by blast
  from assms(2) obtain ys where ys: "env_queue s'' = env_queue s' @ ys" "length ys \<le> k"
      "env_eid s'' = env_eid s' + length ys" "init_entries (env_now s') (env_eid s') ys"
      "\<forall>r. on_order (receiver_inventory r s'') = on_order (receiver_inventory r s') + pipeline r ys"
      and b: "env_now s'' = env_now s'" "timeseries s'' = timeseries s'"
    unfolding body_step_def by blast
  have 1: "env_queue s'' = env_queue s @ (xs @ ys)" using xs ys by simp
  have 2: "length (xs @ ys) \<le> j + k" using xs ys by simp
  have 3: "env_eid s'' = env_eid s + length (xs @ ys)" using xs ys by simp
  have 4: "init_entries (env_now s) (env_eid s) (xs @ ys)"
    using init_entries_append xs(3,4) ys(4) a(1) by metis
  have 5: "\<forall>r. on_order (receiver_inventory r s'') = on_order (receiver_inventory r s) + pipeline r (xs @ ys)"
    using xs(5) ys(5) by (simp add: pipeline_def)
  show ?thesis unfolding body_step_def using a b 1 2 3 4 5 by metis
qed

lemma schedule_inbound_shipment_body_step:
  assumes "schedule_inbound_shipment np cfg r quantity s = Inr s'"
  shows "body_step 1 s s'"
proof (cases "quantity \<le> 0")
  case True
  with assms have "s' = s" by (simp add: schedule_inbound_shipment_def)
  then show ?thesis by (simp add: body_step_0 body_step_mono [of 0])
next
  case False
  with assms obtain lead g2 where
    s': "s' = schedule (Init_arrival r quantity lead) URGENT 0 ((add_on_order r quantity s)\<lparr>random_generator := g2\<rparr>)"
    by (auto simp: schedule_inbound_shipment_def Let_def split: sum.splits prod.splits)
  let ?new = "[(env_now s, URGENT, env_eid s, Init_arrival r quantity lead)]"
  have "env_queue s' = env_queue s @ ?new" "env_eid s' = env_eid s + length ?new"
       "env_now s' = env_now s" "timeseries s' = timeseries s"
    unfolding s' by (auto simp: schedule_def add_on_order_def split: receiver.splits)
  moreover have "init_entries (env_now s) (env_eid s) ?new"
    using False by (simp add: init_entries_def)
  moreover have "\<forall>r'. on_order (receiver_inventory r' s') = on_order (receiver_inventory r' s) + pipeline r' ?new"
    unfolding s' by (auto simp: schedule_def add_on_order_def receiver_inventory_def pipeline_def split: receiver.splits)
  ultimately show ?thesis unfolding body_step_def by (intro conjI exI [of _ ?new]) simp_all
qed

lemma schedule_inbound_shipment_stock:
  assumes "schedule_inbound_shipment np cfg r quantity s = Inr s'"
  shows "stock_ok s' = stock_ok s \<and> stockout_days (sim_store s') = stockout_days (sim_store s)"
  using assms
  by (auto simp: schedule_inbound_shipment_def Let_def schedule_def add_on_order_def stock_ok_def
      split: if_splits sum.splits prod.splits receiver.splits)

lemma realize_demand_body_step:
  assumes "realize_demand np cfg d s = Inr s'"
  shows "body_step 0 s s'"
  using assms
  by (intro body_step_0)
     (auto simp: realize_demand_def consume_demand_def Let_def split: sum.splits prod.splits)

lemma realize_demand_stock:
  assumes "realize_demand np cfg d s = Inr s'" and "stock_ok s"
  shows "stock_ok s' \<and> stockout_days (sim_store s') \<le> stockout_days (sim_store s) + 1"
  using assms
  by (auto simp: realize_demand_def consume_demand_def Let_def stock_ok_def min_def max_def
      split: sum.splits prod.splits)

lemma ship_to_store_facts:
  assumes "ship_to_store d q = (shipped, d')"
  shows "on_order (dc_inventory d') = on_order (dc_inventory d)"
    and "0 \<le> on_hand (dc_inventory d) \<Longrightarrow> 0 \<le> on_hand (dc_inventory d')"
    and "0 \<le> on_hand (dc_inventory d) \<Longrightarrow> 0 \<le> shipped"
    and "shipped \<le> max 0 q"
  using assms by (auto simp: ship_to_store_def Let_def min_def split: if_splits)

lemma clear_backorder_body_step:
  assumes "clear_backorder np cfg s = Inr s'"
  shows "body_step 1 s s'"
proof (cases "backorder (inventory (sim_store s)) > 0")
  case False
  with assms have "s' = s" by (simp add: clear_backorder_def)
  then show ?thesis by (simp add: body_step_0 body_step_mono [of 0])
next
  case True
  obtain shipped dc1 where sh: "ship_to_store (sim_dc s) (backorder (inventory (sim_store s))) = (shipped, dc1)"
    by (cases "ship_to_store (sim_dc s) (backorder (inventory (sim_store s)))") blast
  have a: "body_step 0 s (s\<lparr>sim_dc := dc1\<rparr>)"
    using ship_to_store_facts(1) [OF sh] by (intro body_step_0) simp_all
  show ?thesis
  proof (cases "shipped > 0")
    case False
    with assms True sh have "s' = s\<lparr>sim_dc := dc1\<rparr>" by (simp add: clear_backorder_def)
    with a show ?thesis by (simp add: body_step_mono [of 0])
  next
    case pos: True
    with assms True sh have "schedule_inbound_shipment np cfg Store_actor shipped (s\<lparr>sim_dc := dc1\<rparr>) = Inr s'"
      by (simp add: clear_backorder_def)
    from body_step_trans [OF a schedule_inbound_shipment_body_step [OF this]]
    show ?thesis by simp
  qed
qed

lemma clear_backorder_stock:
  assumes "clear_backorder np cfg s = Inr s'" and "stock_ok s"
  shows "stock_ok s' \<and> stockout_days (sim_store s') = stockout_days (sim_store s)"
proof (cases "backorder (inventory (sim_store s)) > 0")
  case False
  with assms show ?thesis by (simp add: clear_backorder_def)
next
  case True
  obtain shipped dc1 where sh: "ship_to_store (sim_dc s) (backorder (inventory (sim_store s))) = (shipped, dc1)"
    by (cases "ship_to_store (sim_dc s) (backorder (inventory (sim_store s)))") blast
  have a: "stock_ok (s\<lparr>sim_dc := dc1\<rparr>)"
    using ship_to_store_facts(2) [OF sh] assms(2) by (simp add: stock_ok_def)
  show ?thesis
  proof (cases "shipped > 0")
    case False
    with assms True sh have "s' = s\<lparr>sim_dc := dc1\<rparr>" by (simp add: clear_backorder_def)
    with a show ?thesis by simp
  next
    case pos: True
    with assms True sh have "schedule_inbound_shipment np cfg Store_actor shipped (s\<lparr>sim_dc := dc1\<rparr>) = Inr s'"
      by (simp add: clear_backorder_def)
    from schedule_inbound_shipment_stock [OF this] a show ?thesis by simp
  qed
qed

lemma replenish_store_cases:
  assumes "replenish_store np cfg s = Inr s'"
  obtains (none) "s' = s"
  | (order) q shipped dc1 s3 where
      "0 < q"
      "ship_to_store (sim_dc s) q = (shipped, dc1)"
      "(if shipped > 0
        then schedule_inbound_shipment np cfg Store_actor shipped
               (s\<lparr>sim_store := (sim_store s)\<lparr>orders_placed := orders_placed (sim_store s) + 1\<rparr>, sim_dc := dc1\<rparr>)
        else Inr (s\<lparr>sim_store := (sim_store s)\<lparr>orders_placed := orders_placed (sim_store s) + 1\<rparr>, sim_dc := dc1\<rparr>)) = Inr s3"
      "s' = (if q - shipped > 0
             then s3\<lparr>sim_store := (sim_store s3)\<lparr>inventory :=
                    (inventory (sim_store s3))\<lparr>backorder := backorder (inventory (sim_store s3)) + (q - shipped)\<rparr>\<rparr>\<rparr>
             else s3)"
proof -
  from assms obtain q where q: "order_up_to_sS (inventory_position (inventory (sim_store s))) (s_store cfg) (S_store cfg) = Inr q"
    by (auto simp: replenish_store_def split: sum.splits)
  show thesis
  proof (cases "q > 0")
    case False
    with assms q have "s' = s" by (simp add: replenish_store_def)
    then show thesis by (rule none)
  next
    case True
    obtain shipped dc1 where sh: "ship_to_store (sim_dc s) q = (shipped, dc1)"
      by (cases "ship_to_store (sim_dc s) q") blast
    let ?s2 = "s\<lparr>sim_store := (sim_store s)\<lparr>orders_placed := orders_placed (sim_store s) + 1\<rparr>, sim_dc := dc1\<rparr>"
    let ?r = "if shipped > 0 then schedule_inbound_shipment np cfg Store_actor shipped ?s2 else Inr ?s2"
    have eq: "replenish_store np cfg s =
        (case ?r of Inl e \<Rightarrow> Inl e
         | Inr s3 \<Rightarrow>
             if q - shipped > 0
             then Inr (s3\<lparr>sim_store := (sim_store s3)\<lparr>inventory :=
                    (inventory (sim_store s3))\<lparr>backorder := backorder (inventory (sim_store s3)) + (q - shipped)\<rparr>\<rparr>\<rparr>)
             else Inr s3)"
      using q True sh by (simp add: replenish_store_def Let_def cong: sum.case_cong)
    with assms obtain s3 where s3: "?r = Inr s3"
      by (cases ?r) simp_all
    with eq assms have "s' = (if q - shipped > 0
             then s3\<lparr>sim_store := (sim_store s3)\<lparr>inventory :=
                    (inventory (sim_store s3))\<lparr>backorder := backorder (inventory (sim_store s3)) + (q - shipped)\<rparr>\<rparr>\<rparr>
             else s3)"
      by (simp split: if_splits)
    with True sh s3 show thesis by (rule order)
  qed
qed

lemma replenish_store_body_step:
  assumes "replenish_store np cfg s = Inr s'"
  shows "body_step 1 s s'"
  using assms
proof (cases rule: replenish_store_cases)
  case none
  then show ?thesis by (simp add: body_step_0 body_step_mono [of 0])
next
  case (order q shipped dc1 s3)
  let ?s2 = "s\<lparr>sim_store := (sim_store s)\<lparr>orders_placed := orders_placed (sim_store s) + 1\<rparr>, sim_dc := dc1\<rparr>"
  have a: "body_step 0 s ?s2"
    using ship_to_store_facts(1) [OF order(2)] by (intro body_step_0) simp_all
  have b: "body_step 1 ?s2 s3"
  proof (cases "shipped > 0")
    case True
    with order(3) have "schedule_inbound_shipment np cfg Store_actor shipped ?s2 = Inr s3" by simp
    then show ?thesis by (rule schedule_inbound_shipment_body_step)
  next
    case False
    with order(3) have "s3 = ?s2" by simp
    then show ?thesis by (simp add: body_step_0 body_step_mono [of 0])
  qed
  have c: "body_step 0 s3 s'"
    unfolding order(4) by (intro body_step_0) simp_all
  from body_step_trans [OF body_step_trans [OF a b] c] show ?thesis by simp
qed

lemma replenish_store_stock:
  assumes "replenish_store np cfg s = Inr s'" and "stock_ok s"
  shows "stock_ok s' \<and> stockout_days (sim_store s') = stockout_days (sim_store s)"
  using assms(1)
proof (cases rule: replenish_store_cases)
  case none
  with assms(2) show ?thesis by simp
next
  case (order q shipped dc1 s3)
  let ?s2 = "s\<lparr>sim_store := (sim_store s)\<lparr>orders_placed := orders_placed (sim_store s) + 1\<rparr>, sim_dc := dc1\<rparr>"
  have a: "stock_ok ?s2 \<and> stockout_days (sim_store ?s2) = stockout_days (sim_store s)"
    using ship_to_store_facts(2) [OF order(2)] assms(2) by (simp add: stock_ok_def)
  have b: "stock_ok s3 \<and> stockout_days (sim_store s3) = stockout_days (sim_store s)"
  proof (cases "shipped > 0")
    case True
    with order(3) a show ?thesis using schedule_inbound_shipment_stock by fastforce
  next
    case False
    with order(3) a show ?thesis by auto
  qed
  then show ?thesis unfolding order(4) by (auto simp: stock_ok_def)
qed

lemma replenish_dc_body_step:
  assumes "replenish_dc np cfg s = Inr s'"
  shows "body_step 1 s s'"
proof -
  from assms obtain q where q: "order_up_to_sS (inventory_position (dc_inventory (sim_dc s))) (s_dc cfg) (S_dc cfg) = Inr q"
    by (auto simp: replenish_dc_def split: sum.splits)
  show ?thesis
  proof (cases "q > 0")
    case False
    with assms q have "s' = s" by (simp add: replenish_dc_def)
    then show ?thesis by (simp add: body_step_0 body_step_mono [of 0])
  next
    case True
    let ?s1 = "s\<lparr>sim_dc := (sim_dc s)\<lparr>dc_orders_placed := dc_orders_placed (sim_dc s) + 1\<rparr>\<rparr>"
    have a: "body_step 0 s ?s1" by (intro body_step_0) simp_all
    from assms q True have "schedule_inbound_shipment np cfg DC_actor q ?s1 = Inr s'"
      by (simp add: replenish_dc_def)
    from body_step_trans [OF a schedule_inbound_shipment_body_step [OF this]] show ?thesis by simp
  qed
qed

lemma replenish_dc_stock:
  assumes "replenish_dc np cfg s = Inr s'" and "stock_ok s"
  shows "stock_ok s' \<and> stockout_days (sim_store s') = stockout_days (sim_store s)"
proof -
  from assms obtain q where q: "order_up_to_sS (inventory_position (dc_inventory (sim_dc s))) (s_dc cfg) (S_dc cfg) = Inr q"
    by (auto simp: replenish_dc_def split: sum.splits)
  show ?thesis
  proof (cases "q > 0")
    case False
    with assms q show ?thesis by (simp add: replenish_dc_def)
  next
    case True
    let ?s1 = "s\<lparr>sim_dc := (sim_dc s)\<lparr>dc_orders_placed := dc_orders_placed (sim_dc s) + 1\<rparr>\<rparr>"
    have a: "stock_ok ?s1" using assms(2) by (simp add: stock_ok_def)
    from assms q True have "schedule_inbound_shipment np cfg DC_actor q ?s1 = Inr s'"
      by (simp add: replenish_dc_def)
    from schedule_inbound_shipment_stock [OF this] a show ?thesis by simp
  qed
qed

lemma daily_iteration_body:
  assumes "daily_iteration np cfg d s = Inr s'"
  obtains s4 where "body_step 3 s s4" "s' = record_row d s4"
    "stock_ok s \<longrightarrow> stock_ok s4 \<and> stockout_days (sim_store s4) \<le> stockout_days (sim_store s) + 1"
proof -
  from assms obtain s1 s2 s3 s4 where
    p: "realize_demand np cfg d s = Inr s1" "clear_backorder np cfg s1 = Inr s2"
       "replenish_store np cfg s2 = Inr s3" "replenish_dc np cfg s3 = Inr s4" "s' = record_row d s4"
    by (auto simp: daily_iteration_def split: sum.splits)
  have "body_step (0 + 1 + 1 + 1) s s4"
    using body_step_trans [OF body_step_trans [OF body_step_trans [OF realize_demand_body_step [OF p(1)]
          clear_backorder_body_step [OF p(2)]] replenish_store_body_step [OF p(3)]]
          replenish_dc_body_step [OF p(4)]] .
  then have a: "body_step 3 s s4" by (simp add: numeral_3_eq_3)
  have b: "stock_ok s4 \<and> stockout_days (sim_store s4) \<le> stockout_days (sim_store s) + 1" if "stock_ok s"
    using realize_demand_stock [OF p(1) that] clear_backorder_stock [OF p(2)]
      replenish_store_stock [OF p(3)] replenish_dc_stock [OF p(4)] by auto
  from b have "stock_ok s \<longrightarrow> stock_ok s4 \<and> stockout_days (sim_store s4) \<le> stockout_days (sim_store s) + 1"
    by blast
  with a p(5) show thesis by (rule that)
qed

lemma step_Running_cases:
  assumes "step np cfg s = Running s'"
  obtains
    (finished) t p i q' where
      "heappop (env_queue s) = Some ((t, p, i, Process_done), q')"
      "s' = s\<lparr>env_now := t, env_queue := q'\<rparr>"
  | (daily) t p i ev q' d s1 where
      "heappop (env_queue s) = Some ((t, p, i, ev), q')"
      "ev = Init_daily \<and> d = 0 \<or> ev = Wake_daily d"
      "int d < days cfg"
      "daily_iteration np cfg d (s\<lparr>env_now := t, env_queue := q'\<rparr>) = Inr s1"
      "s' = schedule (Wake_daily (Suc d)) NORMAL 1 s1"
  | (daily_end) t p i ev q' d where
      "heappop (env_queue s) = Some ((t, p, i, ev), q')"
      "ev = Init_daily \<and> d = 0 \<or> ev = Wake_daily d"
      "\<not> int d < days cfg"
      "s' = schedule Process_done NORMAL 0 (s\<lparr>env_now := t, env_queue := q'\<rparr>)"
  | (init_arrival) t p i q' r quantity lead where
      "heappop (env_queue s) = Some ((t, p, i, Init_arrival r quantity lead), q')"
      "0 \<le> lead"
      "s' = schedule (Wake_arrival r quantity lead t) NORMAL lead (s\<lparr>env_now := t, env_queue := q'\<rparr>)"
  | (wake_arrival) t p i q' r quantity lead born where
      "heappop (env_queue s) = Some ((t, p, i, Wake_arrival r quantity lead born), q')"
      "s' = schedule Process_done NORMAL 0 (deliver r quantity (s\<lparr>env_now := t, env_queue := q'\<rparr>))"
proof -
  from assms obtain t p i ev q' where pop: "heappop (env_queue s) = Some ((t, p, i, ev), q')"
    by (cases "heappop (env_queue s)") (auto simp: step_def)
  let ?s1 = "s\<lparr>env_now := t, env_queue := q'\<rparr>"
  have resume: thesis if ev: "ev = Init_daily \<and> d = 0 \<or> ev = Wake_daily d"
      and r: "resume_daily np cfg d ?s1 = Running s'" for d
  proof (cases "int d < days cfg")
    case True
    with r obtain s1 where "daily_iteration np cfg d ?s1 = Inr s1"
        "s' = schedule (Wake_daily (Suc d)) NORMAL 1 s1"
      by (auto simp: resume_daily_def split: sum.splits)
    with pop ev True show thesis by (intro daily [of t p i ev q' d s1]) auto
  next
    case False
    with r have "s' = schedule Process_done NORMAL 0 ?s1"
      by (simp add: resume_daily_def)
    with pop ev False show thesis by (intro daily_end [of t p i ev q' d]) auto
  qed
  show thesis
  proof (cases ev)
    case Init_daily
    with assms pop have "resume_daily np cfg 0 ?s1 = Running s'" by (simp add: step_def)
    with Init_daily show thesis by (intro resume [of 0]) auto
  next
    case (Wake_daily d)
    with assms pop have "resume_daily np cfg d ?s1 = Running s'" by (simp add: step_def)
    with Wake_daily show thesis by (intro resume [of d]) auto
  next
    case (Init_arrival r quantity lead)
    with assms pop have "0 \<le> lead" "s' = schedule (Wake_arrival r quantity lead t) NORMAL lead ?s1"
      by (auto simp: step_def split: if_splits)
    with pop Init_arrival show thesis by (intro init_arrival [of t p i r quantity lead q']) auto
  next
    case (Wake_arrival r quantity lead born)
    with assms pop have "s' = schedule Process_done NORMAL 0 (deliver r quantity ?s1)"
      by (simp add: step_def)
    with pop Wake_arrival show thesis by (intro wake_arrival [of t p i r quantity lead born q']) auto
  next
    case Process_done
    with assms pop have "s' = ?s1" by (simp add: step_def)
    with pop Process_done show thesis by (intro finished [of t p i q']) auto
  next
    case Until
    with assms pop show thesis by (simp add: step_def)
  qed
qed

lemma pending_work_pop:
  assumes "heappop q = Some (m, q')"
  shows "pending_work cfg q = work cfg (event_of m) + pending_work cfg q'"
  using heappop_Some(1,2) [OF assms]
  by (simp add: pending_work_def sum_list_map_remove1)

lemma pending_work_append: "pending_work cfg (xs @ ys) = pending_work cfg xs + pending_work cfg ys"
  by (simp add: pending_work_def)

lemma init_entries_work: "init_entries t e0 new \<Longrightarrow> pending_work cfg new = 3 * length new"
proof (induction new rule: rev_induct)
  case Nil
  then show ?case by (simp add: pending_work_def)
next
  case (snoc x xs)
  have "init_entries t e0 xs"
    using snoc.prems unfolding init_entries_def
    by (metis (no_types, lifting) butlast_snoc length_butlast less_imp_diff_less nth_butlast
        length_append_singleton less_Suc_eq)
  moreover have "\<exists>r q lead. x = (t, URGENT, e0 + length xs, Init_arrival r q lead)"
    using snoc.prems unfolding init_entries_def
    by (metis length_append_singleton lessI nth_append_length)
  ultimately show ?case using snoc.IH by (auto simp: pending_work_def)
qed

lemma body_step_work:
  assumes "body_step k s s'"
  shows "pending_work cfg (env_queue s') \<le> pending_work cfg (env_queue s) + 3 * k"
proof -
  from assms obtain new where "env_queue s' = env_queue s @ new" "length new \<le> k"
      "init_entries (env_now s) (env_eid s) new"
    unfolding body_step_def by blast
  then show ?thesis using init_entries_work [of _ _ new cfg] by (simp add: pending_work_append)
qed

lemma step_decreases:
  assumes "step np cfg s = Running s'"
  shows "pending_work cfg (env_queue s') < pending_work cfg (env_queue s)"
  using assms
proof (cases rule: step_Running_cases)
  case (finished t p i q')
  then show ?thesis using pending_work_pop [OF finished(1), of cfg] by simp
next
  case (daily t p i ev q' d s1)
  from daily(4) obtain s4 where b: "body_step 3 (s\<lparr>env_now := t, env_queue := q'\<rparr>) s4" and s1: "s1 = record_row d s4"
    by (rule daily_iteration_body)
  have "pending_work cfg (env_queue s1) \<le> pending_work cfg q' + 9"
    using body_step_work [OF b, of cfg] s1 by (simp add: record_row_def)
  moreover have "pending_work cfg (env_queue s') = pending_work cfg (env_queue s1) + work cfg (Wake_daily (Suc d))"
    unfolding daily(5) by (simp add: schedule_def pending_work_def)
  moreover have "work cfg (Wake_daily (Suc d)) + 9 < work cfg ev"
    using daily(2,3) by auto
  ultimately show ?thesis using pending_work_pop [OF daily(1), of cfg] by simp
next
  case (daily_end t p i ev q' d)
  have "pending_work cfg (env_queue s') = pending_work cfg q' + 1"
    unfolding daily_end(4) by (simp add: schedule_def pending_work_def)
  moreover have "1 < work cfg ev" using daily_end(2) by auto
  ultimately show ?thesis using pending_work_pop [OF daily_end(1), of cfg] by simp
next
  case (init_arrival t p i q' r quantity lead)
  have "pending_work cfg (env_queue s') = pending_work cfg q' + 2"
    unfolding init_arrival(3) by (simp add: schedule_def pending_work_def)
  then show ?thesis using pending_work_pop [OF init_arrival(1), of cfg] by simp
next
  case (wake_arrival t p i q' r quantity lead born)
  have "pending_work cfg (env_queue s') = pending_work cfg q' + 1"
    unfolding wake_arrival(2)
    by (simp add: schedule_def pending_work_def deliver_def receive_def add_on_order_def split: receiver.splits)
  then show ?thesis using pending_work_pop [OF wake_arrival(1), of cfg] by simp
qed

section \<open>The event loop\<close>

function run_loop :: "'g generator \<Rightarrow> simulation_config \<Rightarrow> 'g sim \<Rightarrow> error + 'g sim" where
  "run_loop np cfg s =
     (case step np cfg s of
        Running s' \<Rightarrow> run_loop np cfg s'
      | Stopped s' \<Rightarrow> Inr s'
      | Raised e \<Rightarrow> Inl e)"
  by pat_completeness auto

termination
  by (relation "measure (\<lambda>(np, cfg, s). pending_work cfg (env_queue s))")
     (auto simp: step_decreases)

section \<open>A single replication and the Monte Carlo runner (runner.py)\<close>

text \<open>
  \<^verbatim>\<open>environment.run(until=float(config.days))\<close>: the library rejects a stop time that is
  not after the current time, otherwise it schedules the stop event (urgent) and steps
  until that event is popped.
\<close>

definition env_run :: "'g generator \<Rightarrow> simulation_config \<Rightarrow> real \<Rightarrow> 'g sim \<Rightarrow> error + 'g sim" where
  "env_run np cfg until s =
     (if until \<le> env_now s then Inl (ValueError ''until must be > the current simulation time'')
      else run_loop np cfg (schedule Until URGENT (until - env_now s) s))"

text \<open>
  \<^verbatim>\<open>np.random.default_rng(config.seed)\<close>: with a seed the state is determined by it; with
  no seed the library takes fresh entropy from the operating system, which is an input
  of the model (\<open>entropy\<close>).
\<close>

definition default_rng :: "'g generator \<Rightarrow> 'g \<Rightarrow> int option \<Rightarrow> 'g" where
  "default_rng np entropy sd = (case sd of None \<Rightarrow> entropy | Some n \<Rightarrow> rng_seeded np n)"

definition initial_sim :: "'g \<Rightarrow> simulation_config \<Rightarrow> 'g sim" where
  "initial_sim g cfg =
     \<lparr>env_now = 0, env_queue = [], env_eid = 0, random_generator = g,
      sim_store = \<lparr>inventory = \<lparr>on_hand = initial_on_hand_store cfg, backorder = 0, on_order = 0\<rparr>,
                   demand_units = 0, fulfilled_units = 0, stockout_days = 0, orders_placed = 0\<rparr>,
      sim_dc = \<lparr>dc_inventory = \<lparr>on_hand = initial_on_hand_dc cfg, backorder = 0, on_order = 0\<rparr>,
                dc_orders_placed = 0\<rparr>,
      timeseries = []\<rparr>"

definition np_mean :: "real list \<Rightarrow> real" where
  "np_mean xs = sum_list xs / real (length xs)"

text \<open>The KPI block of \<^verbatim>\<open>run_single\<close>, after the environment has stopped.\<close>

definition compute_kpis :: "simulation_config \<Rightarrow> store \<Rightarrow> distribution_center \<Rightarrow> row list \<Rightarrow> kpis" where
  "compute_kpis cfg st dc ts =
     \<lparr>kpi_service_level =
        1 - (if days cfg > 0 then real_of_int (stockout_days st) / real_of_int (days cfg) else 0),
      kpi_fill_rate =
        (if demand_units st > 0 then real_of_int (fulfilled_units st) / real_of_int (demand_units st)
         else 1),
      kpi_demand_units = demand_units st,
      kpi_fulfilled_units = fulfilled_units st,
      kpi_stockout_days = stockout_days st,
      kpi_avg_on_hand_store = (if ts \<noteq> [] then np_mean (map store_on_hand ts) else 0),
      kpi_avg_on_hand_dc = (if ts \<noteq> [] then np_mean (map dc_on_hand ts) else 0),
      kpi_avg_backorder_store = (if ts \<noteq> [] then np_mean (map store_backorder ts) else 0),
      kpi_total_orders_store = orders_placed st,
      kpi_total_orders_dc = dc_orders_placed dc\<rparr>"

definition start_sim :: "'g generator \<Rightarrow> 'g \<Rightarrow> simulation_config \<Rightarrow> 'g sim" where
  "start_sim np entropy cfg =
     schedule Init_daily URGENT 0 (initial_sim (default_rng np entropy (seed cfg)) cfg)"

definition run_single :: "'g generator \<Rightarrow> 'g \<Rightarrow> simulation_config \<Rightarrow> error + simulation_result" where
  "run_single np entropy cfg =
     (case env_run np cfg (real_of_int (days cfg)) (start_sim np entropy cfg) of
        Inl e \<Rightarrow> Inl e
      | Inr s \<Rightarrow>
          Inr \<lparr>res_config = cfg,
               res_kpis = compute_kpis cfg (sim_store s) (sim_dc s) (timeseries s),
               res_timeseries = timeseries s\<rparr>)"

text \<open>The configuration of replication \<open>i\<close>: the base with the derived seed.\<close>

definition replication_config :: "simulation_config \<Rightarrow> nat \<Rightarrow> simulation_config" where
  "replication_config cfg i =
     cfg\<lparr>seed := (case seed cfg of None \<Rightarrow> None | Some b \<Rightarrow> Some (b + int i))\<rparr>"

text \<open>
  \<^verbatim>\<open>monte_carlo\<close>. The progress sink is optional; the model records the values it is
  called with, in order. \<open>entropy i\<close> is the operating system's entropy at the \<open>i\<close>-th
  replication, used only when the configuration has no seed.
\<close>

fun mc_loop ::
    "'g generator \<Rightarrow> (nat \<Rightarrow> 'g) \<Rightarrow> simulation_config \<Rightarrow> int \<Rightarrow> bool \<Rightarrow> nat list \<Rightarrow>
     kpis list \<times> real list \<Rightarrow> error + (kpis list \<times> real list)" where
  "mc_loop np entropy cfg reps progress_cb [] acc = Inr acc"
| "mc_loop np entropy cfg reps progress_cb (i # rest) (samples, calls) =
     (case run_single np (entropy i) (replication_config cfg i) of
        Inl e \<Rightarrow> Inl e
      | Inr result \<Rightarrow>
          mc_loop np entropy cfg reps progress_cb rest
            (samples @ [res_kpis result],
             if progress_cb then calls @ [real (i + 1) / real_of_int reps] else calls))"

definition kpi_fields :: "(string \<times> (kpis \<Rightarrow> real)) list" where
  "kpi_fields =
     [(''service_level'', kpi_service_level),
      (''fill_rate'', kpi_fill_rate),
      (''demand_units'', \<lambda>k. real_of_int (kpi_demand_units k)),
      (''fulfilled_units'', \<lambda>k. real_of_int (kpi_fulfilled_units k)),
      (''stockout_days'', \<lambda>k. real_of_int (kpi_stockout_days k)),
      (''avg_on_hand_store'', kpi_avg_on_hand_store),
      (''avg_on_hand_dc'', kpi_avg_on_hand_dc),
      (''avg_backorder_store'', kpi_avg_backorder_store),
      (''total_orders_store'', \<lambda>k. real_of_int (kpi_total_orders_store k)),
      (''total_orders_dc'', \<lambda>k. real_of_int (kpi_total_orders_dc k))]"

text \<open>\<^verbatim>\<open>np.std(v, ddof=...)\<close>: the root of the squared deviations over \<open>N - ddof\<close>.\<close>

definition np_std :: "real list \<Rightarrow> nat \<Rightarrow> real" where
  "np_std xs ddof =
     sqrt (sum_list (map (\<lambda>x. \<bar>x - np_mean xs\<bar> ^ 2) xs) / max (real (length xs) - real ddof) 0)"

definition monte_carlo ::
    "'g generator \<Rightarrow> (nat \<Rightarrow> 'g) \<Rightarrow> simulation_config \<Rightarrow> int \<Rightarrow> bool \<Rightarrow>
     error + (monte_carlo_result \<times> real list)" where
  "monte_carlo np entropy cfg reps progress_cb =
     (if reps \<le> 0 then Inl (ValueError ''replications must be > 0'')
      else
        case mc_loop np entropy cfg reps progress_cb [0..<nat reps] ([], []) of
          Inl e \<Rightarrow> Inl e
        | Inr (samples, calls) \<Rightarrow>
            let fields = (if samples \<noteq> [] then kpi_fields else []);
                matrix = map (\<lambda>(field, get). (field, map get samples)) fields;
                means = map (\<lambda>(k, v). (k, np_mean v)) matrix;
                stds = map (\<lambda>(k, v). (k, if reps > 1 then np_std v 1 else 0)) matrix
            in Inr (\<lparr>mc_config = cfg,
                     mc_summary = \<lparr>replications = reps, kpi_mean = means, kpi_std = stds\<rparr>,
                     mc_samples = samples\<rparr>,
                    calls))"

section \<open>Invariants of a run and the states it reaches\<close>

text \<open>
  \<open>run_inv\<close>: the counters and the recorded rows are non-negative, at most one event
  of the daily process is in the heap, its loop index is the number of rows recorded so
  far, and that number bounds \<open>stockout_days\<close> and is bounded by the horizon.
\<close>

fun daily_index :: "event \<Rightarrow> nat option" where
  "daily_index Init_daily = Some 0"
| "daily_index (Wake_daily d) = Some d"
| "daily_index ev = None"

definition is_daily :: "entry \<Rightarrow> bool" where
  "is_daily e \<longleftrightarrow> daily_index (event_of e) \<noteq> None"

definition row_ok :: "row \<Rightarrow> bool" where
  "row_ok r \<longleftrightarrow> 0 \<le> store_on_hand r \<and> 0 \<le> dc_on_hand r \<and> 0 \<le> store_backorder r"

definition run_inv :: "simulation_config \<Rightarrow> 'g sim \<Rightarrow> bool" where
  "run_inv cfg s \<longleftrightarrow>
     stock_ok s \<and> list_all row_ok (timeseries s) \<and>
     stockout_days (sim_store s) \<le> int (length (timeseries s)) \<and>
     int (length (timeseries s)) \<le> days cfg \<and>
     length (filter is_daily (env_queue s)) \<le> 1 \<and>
     (\<forall>e \<in> set (env_queue s). \<forall>d. daily_index (event_of e) = Some d \<longrightarrow> d = length (timeseries s))"

text \<open>
  \<open>launch\<close> is the environment when \<^verbatim>\<open>run\<close> starts stepping: the daily process and
  the stop event are scheduled. \<open>steps n\<close> is the environment after \<open>n\<close> events.
  \<open>pipeline_inv\<close> ties each receiver's \<open>on_order\<close> to the arrival events in the heap.
\<close>

definition launch :: "'g generator \<Rightarrow> 'g \<Rightarrow> simulation_config \<Rightarrow> 'g sim" where
  "launch np entropy cfg =
     schedule Until URGENT (real_of_int (days cfg) - env_now (start_sim np entropy cfg))
       (start_sim np entropy cfg)"

fun steps :: "'g generator \<Rightarrow> simulation_config \<Rightarrow> nat \<Rightarrow> 'g sim \<Rightarrow> 'g outcome" where
  "steps np cfg 0 s = Running s"
| "steps np cfg (Suc n) s =
     (case step np cfg s of
        Running s' \<Rightarrow> steps np cfg n s'
      | Stopped s' \<Rightarrow> Stopped s'
      | Raised e \<Rightarrow> Raised e)"

definition pipeline_inv :: "'g sim \<Rightarrow> bool" where
  "pipeline_inv s \<longleftrightarrow>
     (\<forall>r. on_order (receiver_inventory r s) = pipeline r (env_queue s)) \<and>
     (\<forall>e \<in> set (env_queue s). \<forall>r. 0 \<le> pending_quantity r e)"

fun time_of :: "entry \<Rightarrow> real" where
  "time_of (t, p, i, ev) = t"

fun priority_of :: "entry \<Rightarrow> nat" where
  "priority_of (t, p, i, ev) = p"

fun eid_of :: "entry \<Rightarrow> nat" where
  "eid_of (t, p, i, ev) = i"

text \<open>
  \<open>sched_inv\<close>: no event lies in the past and event ids are fresh; the stop event is
  in the heap; exactly one event of the daily process is in the heap, its loop index
  is the number of rows recorded so far, and its timeout for day \<open>d\<close> (a day from 1
  to the horizon) fires at time \<open>d\<close> and was created at time \<open>d - 1\<close>; an arrival
  process that has not started sits at the current time, which is then the day before
  the daily timeout; an arrival timeout was created at the latest on the day before the
  daily timeout, after that timeout if on that day and before it otherwise.
\<close>

definition sched_inv :: "simulation_config \<Rightarrow> 'g sim \<Rightarrow> bool" where
  "sched_inv cfg s \<longleftrightarrow>
     (\<forall>e \<in> set (env_queue s). env_now s \<le> time_of e \<and> eid_of e < env_eid s) \<and>
     (real_of_int (days cfg), URGENT, 1, Until) \<in> set (env_queue s) \<and>
     (\<exists>e \<in> set (env_queue s). is_daily e) \<and>
     length (filter is_daily (env_queue s)) \<le> 1 \<and>
     (\<forall>e \<in> set (env_queue s). \<forall>d. daily_index (event_of e) = Some d \<longrightarrow> d = length (timeseries s)) \<and>
     (\<forall>e \<in> set (env_queue s). \<forall>d. event_of e = Wake_daily d \<longrightarrow>
        time_of e = real d \<and> priority_of e = NORMAL \<and> real d - 1 \<le> env_now s \<and>
        0 < d \<and> int d \<le> days cfg) \<and>
     (\<forall>e \<in> set (env_queue s). event_of e = Init_daily \<longrightarrow>
        env_queue s = [(0, URGENT, 0, Init_daily), (real_of_int (days cfg), URGENT, 1, Until)]) \<and>
     (\<forall>e \<in> set (env_queue s). \<forall>r k l. event_of e = Init_arrival r k l \<longrightarrow>
        time_of e = env_now s \<and> priority_of e = URGENT \<and>
        (\<forall>e' \<in> set (env_queue s). \<forall>d. event_of e' = Wake_daily d \<longrightarrow> env_now s = real d - 1)) \<and>
     (\<forall>e \<in> set (env_queue s). \<forall>r k l b. event_of e = Wake_arrival r k l b \<longrightarrow>
        priority_of e = NORMAL \<and>
        (\<forall>e' \<in> set (env_queue s). \<forall>d. event_of e' = Wake_daily d \<longrightarrow>
           b \<le> real d - 1 \<and> (b < real d - 1 \<longrightarrow> eid_of e < eid_of e') \<and>
           (b = real d - 1 \<longrightarrow> eid_of e' < eid_of e)))"

fun arrival_due :: "entry \<Rightarrow> real option" where
  "arrival_due (t, p, i, Wake_arrival r q lead born) = Some t"
| "arrival_due (t, p, i, ev) = None"

text \<open>
  \<open>arrival_due\<close> is the time at which the timeout of a pending arrival fires, the
  time at which the arrival is to be applied. \<open>due_not_applied s\<close> lists the arrivals
  that are due at or before the day boundary and still in the heap when the daily
  process is the next to run (its iteration starts by drawing the day's demand).
\<close>

definition due_not_applied :: "'g sim \<Rightarrow> entry list" where
  "due_not_applied s =
     (case heappop (env_queue s) of
        None \<Rightarrow> []
      | Some ((t, p, i, ev), q') \<Rightarrow>
          (case daily_index ev of
             None \<Rightarrow> []
           | Some d \<Rightarrow>
               filter (\<lambda>e. case arrival_due e of None \<Rightarrow> False | Some due \<Rightarrow> due \<le> real d) q'))"

section \<open>Concrete configurations and states\<close>

text \<open>
  Configurations for concrete runs: two days, lead time exactly one day, no disruption;
  and the same with a horizon of zero days. \<open>boundary_state\<close> is the environment of the
  two-day run under the counting generator after its first two events; \<open>sample_a\<close> and
  \<open>sample_b\<close> are the KPI records of its first two replications under the seeded
  generator.
\<close>

definition two_day_config :: simulation_config where
  "two_day_config =
     \<lparr>days = 2, demand_lambda_per_day = 20, demand_peaks = [],
      s_store = 80, S_store = 160, s_dc = 300, S_dc = 600,
      initial_on_hand_store = 100, initial_on_hand_dc = 500,
      lead_time_mean_days = 1, lead_time_std_days = 0,
      disruption_probability_per_shipment = 0, disruption_delay_days = 0,
      holding_cost_per_unit_per_day = 0, seed = Some 42\<rparr>"

definition zero_day_config :: simulation_config where
  "zero_day_config = two_day_config\<lparr>days := 0\<rparr>"

definition boundary_state :: "nat sim" where
  "boundary_state =
     \<lparr>env_now = 0,
      env_queue =
        [(2, URGENT, 1, Until),
         (1, NORMAL, 3, Wake_daily 1),
         (1, NORMAL, 4, Wake_arrival Store_actor 90 1 0)],
      env_eid = 5, random_generator = 1,
      sim_store =
        \<lparr>inventory = \<lparr>on_hand = 70, backorder = 0, on_order = 90\<rparr>,
         demand_units = 30, fulfilled_units = 30, stockout_days = 0, orders_placed = 1\<rparr>,
      sim_dc =
        \<lparr>dc_inventory = \<lparr>on_hand = 410, backorder = 0, on_order = 0\<rparr>, dc_orders_placed = 0\<rparr>,
      timeseries =
        [\<lparr>day = 0, store_on_hand = 70, store_backorder = 0, store_on_order = 90,
          dc_on_hand = 410, dc_on_order = 0\<rparr>]\<rparr>"

text \<open>
  A run in which the float sum differs from the real sum. The lead time is the greatest
  float below 1 (\<^verbatim>\<open>0.9999999999999999\<close>, that is \<^verbatim>\<open>1 - 2**-53\<close>), and the store
  orders on day 1 only, so that the sum \<^verbatim>\<open>1.0 + 0.9999999999999999\<close>, which is
  \<^verbatim>\<open>2.0\<close>, is the due time of its shipment. \<open>tie_boundary_state\<close> is the environment after the first three events, when the
  daily process is about to run day 2; \<open>tie_after_state\<close> is the environment after
  that iteration.
\<close>

definition tie_config :: simulation_config where
  "tie_config =
     two_day_config\<lparr>days := 3, s_store := 60, S_store := 130,
                      lead_time_mean_days := 1 - 1 / 2 ^ 53\<rparr>"

definition tie_boundary_state :: "nat sim" where
  "tie_boundary_state =
     \<lparr>env_now = 1,
      env_queue =
        [(3, URGENT, 1, Until),
         (2, NORMAL, 4, Wake_daily 2),
         (2, NORMAL, 5, Wake_arrival Store_actor 90 (1 - 1 / 2 ^ 53) 1)],
      env_eid = 6, random_generator = 2,
      sim_store =
        \<lparr>inventory = \<lparr>on_hand = 40, backorder = 0, on_order = 90\<rparr>,
         demand_units = 60, fulfilled_units = 60, stockout_days = 0, orders_placed = 1\<rparr>,
      sim_dc =
        \<lparr>dc_inventory = \<lparr>on_hand = 410, backorder = 0, on_order = 0\<rparr>, dc_orders_placed = 0\<rparr>,
      timeseries =
        [\<lparr>day = 0, store_on_hand = 70, store_backorder = 0, store_on_order = 0,
          dc_on_hand = 500, dc_on_order = 0\<rparr>,
         \<lparr>day = 1, store_on_hand = 40, store_backorder = 0, store_on_order = 90,
          dc_on_hand = 410, dc_on_order = 0\<rparr>]\<rparr>"

definition tie_after_state :: "nat sim" where
  "tie_after_state =
     \<lparr>env_now = 2,
      env_queue =
        [(3, URGENT, 1, Until),
         (2, NORMAL, 5, Wake_arrival Store_actor 90 (1 - 1 / 2 ^ 53) 1),
         (3, NORMAL, 6, Wake_daily 3)],
      env_eid = 7, random_generator = 3,
      sim_store =
        \<lparr>inventory = \<lparr>on_hand = 10, backorder = 0, on_order = 90\<rparr>,
         demand_units = 90, fulfilled_units = 90, stockout_days = 0, orders_placed = 1\<rparr>,
      sim_dc =
        \<lparr>dc_inventory = \<lparr>on_hand = 410, backorder = 0, on_order = 0\<rparr>, dc_orders_placed = 0\<rparr>,
      timeseries =
        [\<lparr>day = 0, store_on_hand = 70, store_backorder = 0, store_on_order = 0,
          dc_on_hand = 500, dc_on_order = 0\<rparr>,
         \<lparr>day = 1, store_on_hand = 40, store_backorder = 0, store_on_order = 90,
          dc_on_hand = 410, dc_on_order = 0\<rparr>,
         \<lparr>day = 2, store_on_hand = 10, store_backorder = 0, store_on_order = 90,
          dc_on_hand = 410, dc_on_order = 0\<rparr>]\<rparr>"

definition sample_a :: kpis where
  "sample_a =
     \<lparr>kpi_service_level = 1, kpi_fill_rate = 1, kpi_demand_units = 85, kpi_fulfilled_units = 85,
      kpi_stockout_days = 0, kpi_avg_on_hand_store = 73 / 2, kpi_avg_on_hand_dc = 398,
      kpi_avg_backorder_store = 0, kpi_total_orders_store = 1, kpi_total_orders_dc = 0\<rparr>"

definition sample_b :: kpis where
  "sample_b =
     \<lparr>kpi_service_level = 1, kpi_fill_rate = 1, kpi_demand_units = 87, kpi_fulfilled_units = 87,
      kpi_stockout_days = 0, kpi_avg_on_hand_store = 35, kpi_avg_on_hand_dc = 397,
      kpi_avg_backorder_store = 0, kpi_total_orders_store = 1, kpi_total_orders_dc = 0\<rparr>"

section \<open>Lemmas about float rounding and the lognormal parameters\<close>

lemma powr_52: "(2::real) powr 52 = of_int (2 ^ 52)"
  by (simp add: powr_numeral)

lemma round_ties_even_of_int: "round_ties_even (of_int k) = k"
  by (simp add: round_ties_even_def)

text \<open>A positive result below half the least positive float rounds to zero.\<close>

lemma binary64_underflow:
  assumes "0 < x" and "x < 2 powr (- 1075)"
  shows "binary64 x = Finite 0"
proof -
  define z where "z = x / 2 powr (- 1074)"
  have "log 2 x < - 1075" using assms by (simp add: log_less_iff)
  then have fl: "\<lfloor>log 2 \<bar>x\<bar>\<rfloor> \<le> - 1022" using assms(1) by (simp add: floor_le_iff)
  have e: "max \<lfloor>log 2 \<bar>x\<bar>\<rfloor> (- 1022) = - 1022" using fl by simp
  have "z < 2 powr (- 1075) / 2 powr (- 1074)"
    unfolding z_def using assms(2) by (simp add: divide_strict_right_mono)
  also have "\<dots> = 2 powr (- 1)" by (simp add: powr_diff [symmetric])
  also have "\<dots> = 1 / 2" by (simp add: powr_minus_divide)
  finally have q: "z < 1 / 2" .
  have q0: "0 < z" unfolding z_def using assms(1) by simp
  have "of_int 0 \<le> z" "z < of_int 0 + 1" using q q0 by simp_all
  then have f: "\<lfloor>z\<rfloor> = 0" by (rule floor_unique)
  have r: "round_ties_even z = 0"
    using q f by (simp add: round_ties_even_def)
  show ?thesis
    using assms(1) e r [unfolded z_def] by (simp add: binary64_def Let_def)
qed

text \<open>A power of two in the normal range is a float; from \<^verbatim>\<open>2**1024\<close> on it is infinite.\<close>

lemma binary64_power_of_two:
  fixes k :: int
  assumes "- 1022 \<le> k"
  shows "binary64 (2 powr of_int k) = (if k < 1024 then Finite (2 powr of_int k) else PosInf)"
proof -
  define u :: real where "u = 2 powr (of_int k - 52)"
  have e: "max \<lfloor>log 2 \<bar>2 powr (of_int k :: real)\<bar>\<rfloor> (- 1022) = k" using assms by simp
  have "(2::real) powr of_int k / u = 2 powr 52"
    unfolding u_def by (simp add: powr_diff [symmetric])
  then have q: "(2::real) powr of_int k / u = of_int (2 ^ 52)" by (simp only: powr_52)
  have r: "round_ties_even (2 powr of_int k / u) = 2 ^ 52"
    unfolding q by (rule round_ties_even_of_int)
  have "of_int (2 ^ 52) * u = (2::real) powr 52 * u" by (simp only: powr_52)
  also have "\<dots> = 2 powr of_int k"
    unfolding u_def by (simp only: powr_add [symmetric]) simp
  finally have y: "of_int (2 ^ 52) * u = (2::real) powr of_int k" .
  have p: "(2::real) ^ 1024 = 2 powr of_int 1024" by (simp add: powr_numeral)
  have "\<bar>(2::real) powr of_int k\<bar> = 2 powr of_int k" by simp
  then have lt: "\<bar>(2::real) powr of_int k\<bar> < 2 ^ 1024 \<longleftrightarrow> k < 1024"
    unfolding p by (simp only: powr_less_cancel_iff) simp
  have "binary64 (2 powr of_int k) =
      (if \<bar>of_int (round_ties_even (2 powr of_int k / u)) * u\<bar> < 2 ^ 1024
       then Finite (of_int (round_ties_even (2 powr of_int k / u)) * u) else PosInf)"
    unfolding binary64_def Let_def e u_def by simp
  then show ?thesis unfolding r y lt .
qed

lemma binary64_zero: "binary64 0 = Finite 0"
  by (simp add: binary64_def)

lemma binary64_one: "binary64 1 = Finite 1"
  using binary64_power_of_two [of 0] by simp

lemma powr_int_mono: "a \<le> b \<Longrightarrow> (2::real) powr of_int a \<le> 2 powr of_int b"
  by simp

lemma powr_53: "(2::real) powr of_int 53 = real (2 ^ 53)"
  by (simp add: powr_numeral)

lemma round_ties_even_ge_floor: "\<lfloor>x\<rfloor> \<le> round_ties_even x"
  by (simp add: round_ties_even_def Let_def)

lemma powr_floor_log2_le: "0 < x \<Longrightarrow> 2 powr of_int \<lfloor>log 2 x\<rfloor> \<le> x"
proof -
  assume x: "0 < x"
  have "of_int \<lfloor>log 2 x\<rfloor> \<le> log 2 x" by simp
  then have "2 powr of_int \<lfloor>log 2 x\<rfloor> \<le> 2 powr log 2 x" by simp
  with x show ?thesis by simp
qed

text \<open>The float nearest to a positive real, written with the exponent of the real.\<close>

lemma binary64_pos:
  assumes "1 \<le> x"
  defines "u \<equiv> 2 powr (of_int \<lfloor>log 2 x\<rfloor> - 52)"
  shows "binary64 x =
    (if \<bar>of_int (round_ties_even (x / u)) * u\<bar> < 2 ^ 1024
     then Finite (of_int (round_ties_even (x / u)) * u) else PosInf)"
proof -
  have "0 \<le> \<lfloor>log 2 x\<rfloor>" using assms(1) by simp
  then have "max \<lfloor>log 2 x\<rfloor> (- 1022) = \<lfloor>log 2 x\<rfloor>" by linarith
  moreover have "\<bar>x\<bar> = x" using assms(1) by simp
  ultimately have e: "max \<lfloor>log 2 \<bar>x\<bar>\<rfloor> (- 1022) = \<lfloor>log 2 x\<rfloor>" by simp
  have "x \<noteq> 0" using assms(1) by simp
  then show ?thesis unfolding binary64_def Let_def e u_def using assms(1) by simp
qed

lemma ulp_small:
  fixes L :: int
  assumes "0 \<le> L" "L \<le> 52"
  shows "(2::real) powr (of_int L - 52) * 2 ^ nat (52 - L) = 1"
proof -
  have "(2::real) ^ nat (52 - L) = 2 powr of_int (52 - L)"
    using assms by (simp add: powr_realpow [symmetric])
  then have "(2::real) powr (of_int L - 52) * 2 ^ nat (52 - L) = 2 powr ((of_int L - 52) + of_int (52 - L))"
    by (simp only: powr_add)
  also have "\<dots> = 1" by simp
  finally show ?thesis .
qed

lemma binary64_ge_nat:
  assumes "real n \<le> x" and "n \<le> 2 ^ 53"
  shows "real n \<le> (case binary64 x of Finite c \<Rightarrow> c | _ \<Rightarrow> x)"
proof (cases "n = 0")
  case True
  show ?thesis
  proof (cases "x = 0")
    case True
    then show ?thesis using \<open>n = 0\<close> by (simp add: binary64_zero)
  next
    case False
    with assms(1) \<open>n = 0\<close> have x: "0 < x" by simp
    define u :: real where "u = 2 powr (of_int (max \<lfloor>log 2 \<bar>x\<bar>\<rfloor> (- 1022)) - 52)"
    have u: "0 < u" unfolding u_def by simp
    have "0 \<le> \<lfloor>x / u\<rfloor>" using x u by simp
    then have "0 \<le> round_ties_even (x / u)" using round_ties_even_ge_floor [of "x / u"] by linarith
    then have y: "0 \<le> of_int (round_ties_even (x / u)) * u" using u by simp
    have "binary64 x = (if \<bar>of_int (round_ties_even (x / u)) * u\<bar> < 2 ^ 1024
        then Finite (of_int (round_ties_even (x / u)) * u) else PosInf)"
      using x unfolding binary64_def Let_def u_def by simp
    with y x \<open>n = 0\<close> show ?thesis by simp
  qed
next
  case False
  then have x1: "1 \<le> x" using assms(1) by (cases n) auto
  define L where "L = \<lfloor>log 2 x\<rfloor>"
  define u :: real where "u = 2 powr (of_int L - 52)"
  have L0: "0 \<le> L" unfolding L_def using x1 by simp
  have u: "0 < u" unfolding u_def by simp
  have b: "binary64 x = (if \<bar>of_int (round_ties_even (x / u)) * u\<bar> < 2 ^ 1024
      then Finite (of_int (round_ties_even (x / u)) * u) else PosInf)"
    using binary64_pos [OF x1] unfolding u_def L_def .
  have "real n \<le> of_int (round_ties_even (x / u)) * u"
  proof (cases "L \<le> 52")
    case True
    define k where "k = nat (52 - L)"
    have uk: "u * 2 ^ k = 1" unfolding u_def k_def by (rule ulp_small [OF L0 True])
    then have inv: "1 / u = 2 ^ k" using u by (simp add: field_simps)
    have "real n / u = real n * (1 / u)" by simp
    also have "\<dots> = real n * 2 ^ k" by (simp only: inv)
    also have "\<dots> = of_int (int n * 2 ^ k)" by simp
    finally have "real n / u = of_int (int n * 2 ^ k)" .
    moreover have "real n / u \<le> x / u" using assms(1) u by (simp add: divide_right_mono)
    ultimately have "of_int (int n * 2 ^ k) \<le> x / u" by simp
    then have "int n * 2 ^ k \<le> \<lfloor>x / u\<rfloor>" by (simp only: le_floor_iff)
    then have "int n * 2 ^ k \<le> round_ties_even (x / u)"
      using round_ties_even_ge_floor [of "x / u"] by linarith
    then have "real_of_int (int n * 2 ^ k) \<le> of_int (round_ties_even (x / u))" by (simp only: of_int_le_iff)
    then have "real_of_int (int n * 2 ^ k) * u \<le> of_int (round_ties_even (x / u)) * u"
      using u by (simp only: mult_le_cancel_right_pos)
    moreover have "real_of_int (int n * 2 ^ k) * u = real n"
    proof -
      have "real_of_int (int n * 2 ^ k) * u = real n * (u * 2 ^ k)" by (simp add: algebra_simps)
      then show ?thesis by (simp only: uk mult_1_right)
    qed
    ultimately show ?thesis by (simp only:)
  next
    case False
    then have L53: "53 \<le> L" by simp
    have "2 powr of_int L \<le> x" unfolding L_def using powr_floor_log2_le [of x] x1 by simp
    then have "2 powr of_int L / u \<le> x / u" using u by (simp add: divide_right_mono)
    moreover have "2 powr of_int L / u = 2 powr 52" unfolding u_def by (simp add: powr_diff [symmetric])
    ultimately have "of_int (2 ^ 52) \<le> x / u" by (simp only: powr_52)
    then have "2 ^ 52 \<le> \<lfloor>x / u\<rfloor>" by (simp only: le_floor_iff)
    then have "2 ^ 52 \<le> round_ties_even (x / u)"
      using round_ties_even_ge_floor [of "x / u"] by linarith
    then have "real_of_int (2 ^ 52) \<le> of_int (round_ties_even (x / u))" by (simp only: of_int_le_iff)
    then have "real_of_int (2 ^ 52) * u \<le> of_int (round_ties_even (x / u)) * u"
      using u by (simp only: mult_le_cancel_right_pos)
    moreover have "real_of_int (2 ^ 52) * u = 2 powr of_int L"
    proof -
      have "real_of_int (2 ^ 52) * u = 2 powr 52 * u" by (simp only: powr_52)
      also have "\<dots> = 2 powr of_int L" unfolding u_def by (simp only: powr_add [symmetric]) simp
      finally show ?thesis .
    qed
    moreover have "real (2 ^ 53) \<le> 2 powr of_int L"
      using powr_int_mono [OF L53] by (simp only: powr_53)
    moreover have "real n \<le> real (2 ^ 53)" using assms(2) by (simp only: of_nat_le_iff)
    ultimately show ?thesis by linarith
  qed
  with b assms(1) show ?thesis by simp
qed

lemma binary64_of_nat:
  assumes "n \<le> 2 ^ 53"
  shows "binary64 (real n) = Finite (real n)"
proof (cases "n = 0")
  case True
  then show ?thesis by (simp add: binary64_zero)
next
  case False
  then have x1: "1 \<le> real n" by (cases n) auto
  define L where "L = \<lfloor>log 2 (real n)\<rfloor>"
  define u :: real where "u = 2 powr (of_int L - 52)"
  have L0: "0 \<le> L" unfolding L_def using x1 by simp
  have u: "0 < u" unfolding u_def by simp
  have b: "binary64 (real n) = (if \<bar>of_int (round_ties_even (real n / u)) * u\<bar> < 2 ^ 1024
      then Finite (of_int (round_ties_even (real n / u)) * u) else PosInf)"
    using binary64_pos [OF x1] unfolding u_def L_def .
  have small: "\<bar>real n\<bar> < 2 ^ 1024"
  proof -
    have "real n \<le> real (2 ^ 53)" using assms by (simp only: of_nat_le_iff)
    also have "\<dots> < 2 ^ 1024" by simp
    finally show ?thesis by simp
  qed
  show ?thesis
  proof (cases "L \<le> 52")
    case True
    define k where "k = nat (52 - L)"
    have uk: "u * 2 ^ k = 1" unfolding u_def k_def by (rule ulp_small [OF L0 True])
    then have inv: "1 / u = 2 ^ k" using u by (simp add: field_simps)
    have "real n / u = real n * (1 / u)" by simp
    also have "\<dots> = real n * 2 ^ k" by (simp only: inv)
    also have "\<dots> = of_int (int n * 2 ^ k)" by simp
    finally have q: "real n / u = of_int (int n * 2 ^ k)" .
    have r: "round_ties_even (real n / u) = int n * 2 ^ k"
      unfolding q by (rule round_ties_even_of_int)
    have nu: "real_of_int (int n * 2 ^ k) * u = real n"
    proof -
      have "real_of_int (int n * 2 ^ k) * u = real n * (u * 2 ^ k)" by (simp add: algebra_simps)
      then show ?thesis by (simp only: uk mult_1_right)
    qed
    have "binary64 (real n) = (if \<bar>real n\<bar> < 2 ^ 1024 then Finite (real n) else PosInf)"
      using b unfolding r nu .
    with small show ?thesis by (simp only: if_True)
  next
    case False
    then have "53 \<le> L" by simp
    then have "real (2 ^ 53) \<le> 2 powr of_int L"
      using powr_int_mono [of 53 L] by (simp only: powr_53)
    also have "\<dots> \<le> real n" unfolding L_def using powr_floor_log2_le [of "real n"] x1 by simp
    finally have "real (2 ^ 53) \<le> real n" .
    then have "2 ^ 53 \<le> n" by (simp only: of_nat_le_iff)
    with assms have n: "n = 2 ^ 53" by simp
    have "real n = 2 powr of_int 53" unfolding n by (simp add: powr_numeral)
    then show ?thesis using binary64_power_of_two [of 53] by simp
  qed
qed

lemma nat_le_2_53: "int n \<le> 2 ^ 53 \<Longrightarrow> n \<le> 2 ^ 53"
proof -
  assume "int n \<le> 2 ^ 53"
  moreover have "int (2 ^ 53) = 2 ^ 53" by simp
  ultimately have "int n \<le> int (2 ^ 53)" by (simp only:)
  then show ?thesis by (simp only: of_nat_le_iff)
qed

text \<open>
  What the ordering of events needs of the float sum: within \<^verbatim>\<open>2**53\<close> days, one day
  added to the integer day \<open>d\<close> is exactly \<open>d + 1\<close>, and a non-negative delay added
  at day \<open>d\<close> never gives a time before \<open>d\<close>.
\<close>

lemma fadd_next_day:
  assumes "int (Suc d) \<le> 2 ^ 53"
  shows "fadd (real d) 1 = real (Suc d)"
proof (cases "d = 0")
  case True
  then show ?thesis by simp
next
  case False
  note assms = nat_le_2_53 [OF assms]
  have "binary64 (real d + 1) = binary64 (real (Suc d))" by (simp add: add.commute)
  then have "binary64 (real d + 1) = Finite (real (Suc d))"
    using binary64_of_nat [OF assms] by (simp only:)
  then have "binary64_add (real d) 1 = real (Suc d)"
    by (simp only: binary64_add_def py_add.simps(1) pyfloat.case)
  with False show ?thesis by (simp add: fadd_def)
qed

lemma fadd_ge_day:
  assumes "int d \<le> 2 ^ 53" and "0 \<le> b"
  shows "real d \<le> fadd (real d) b"
proof -
  have "real d \<le> real d + b" using assms(2) by simp
  from binary64_ge_nat [OF this nat_le_2_53 [OF assms(1)]] assms(2) show ?thesis
    by (simp add: fadd_def binary64_add_def)
qed

lemma binary64_add_small: "binary64_add 1 1 = 2" "binary64_add 2 1 = 3"
proof -
  have "binary64 (real 2) = Finite (real 2)" "binary64 (real 3) = Finite (real 3)"
    by (rule binary64_of_nat, simp)+
  then show "binary64_add 1 1 = 2" "binary64_add 2 1 = 3"
    by (simp_all add: binary64_add_def)
qed

text \<open>\<^verbatim>\<open>1.0 + 0.9999999999999999 == 2.0\<close>: the real sum lies half way between two floats.\<close>

lemma binary64_add_tie: "binary64_add 1 (9007199254740991 / 9007199254740992) = 2"
proof -
  define x :: real where "x = 2 - 1 / 2 ^ 53"
  have x1: "1 \<le> x" and x2: "x < 2" unfolding x_def by simp_all
  have "0 \<le> log 2 x" using x1 by simp
  moreover have "log 2 x < 1" using x1 x2 by (simp add: log_less_iff)
  ultimately have L: "\<lfloor>log 2 x\<rfloor> = 0" by (simp add: floor_eq_iff)
  have u: "(2::real) powr (of_int 0 - 52) = 1 / 2 ^ 52" by (simp add: powr_minus_divide powr_numeral)
  have q: "x / (1 / 2 ^ 52) = 2 ^ 53 - 1 / 2" unfolding x_def by simp
  have f: "\<lfloor>(2::real) ^ 53 - 1 / 2\<rfloor> = 2 ^ 53 - 1" by (simp add: floor_eq_iff)
  have r: "round_ties_even (2 ^ 53 - 1 / 2) = 2 ^ 53"
    unfolding round_ties_even_def Let_def f by simp
  have b: "binary64 x = Finite 2"
    using binary64_pos [OF x1] unfolding L u q r by simp
  have s: "1 + 9007199254740991 / 9007199254740992 = x" unfolding x_def by simp
  show ?thesis by (simp only: binary64_add_def py_add.simps(1) s b pyfloat.case)
qed

text \<open>\<^verbatim>\<open>1.0 + 1.0000000000000002 == 2.0\<close>, the tie from the other side.\<close>

lemma binary64_add_tie_above: "binary64_add 1 (1 + 1 / 2 ^ 52) = 2"
proof -
  define x :: real where "x = 2 + 1 / 2 ^ 52"
  have x1: "1 \<le> x" and x2: "2 \<le> x" and x4: "x < 4" unfolding x_def by simp_all
  have "1 \<le> log 2 x" using x2 by (simp add: le_log_iff)
  moreover have "log 2 x < 2" using x1 x4 by (simp add: log_less_iff)
  ultimately have L: "\<lfloor>log 2 x\<rfloor> = 1" by (simp add: floor_eq_iff)
  have u: "(2::real) powr (of_int 1 - 52) = 1 / 2 ^ 51" by (simp add: powr_minus_divide powr_numeral)
  have q: "x / (1 / 2 ^ 51) = 2 ^ 52 + 1 / 2" unfolding x_def by simp
  have f: "\<lfloor>(2::real) ^ 52 + 1 / 2\<rfloor> = 2 ^ 52" by (simp add: floor_eq_iff)
  have r: "round_ties_even (2 ^ 52 + 1 / 2) = 2 ^ 52"
    unfolding round_ties_even_def Let_def f by simp
  have b: "binary64 x = Finite 2"
    using binary64_pos [OF x1] unfolding L u q r by simp
  have s: "1 + (1 + 1 / 2 ^ 52) = x" unfolding x_def by simp
  show ?thesis by (simp only: binary64_add_def py_add.simps(1) s b pyfloat.case)
qed

lemma mean_square_underflows: "py_mul (Finite (2 powr (- 600))) (Finite (2 powr (- 600))) = Finite 0"
proof -
  have "(2::real) powr (- 600) * 2 powr (- 600) = 2 powr (- 1200)"
    by (simp add: powr_add [symmetric])
  moreover have "(2::real) powr (- 1200) < 2 powr (- 1075)" by simp
  ultimately show ?thesis using binary64_underflow [of "2 powr (- 1200)"] by simp
qed

lemma std_square_overflows: "py_mul (Finite (2 powr 600)) (Finite (2 powr 600)) = PosInf"
proof -
  have "(2::real) powr 600 * 2 powr 600 = 2 powr of_int 1200"
    by (simp add: powr_add [symmetric])
  then show ?thesis using binary64_power_of_two [of 1200] by simp
qed

text \<open>
  A zero standard deviation returns the mean itself and makes no draw; the two
  parameter checks come first. With a positive standard deviation the division raises
  as soon as the square of the mean rounds to zero.
\<close>

lemma lognormal_days_degenerate:
  "(0 < mean_days \<and> std_days = 0 \<longrightarrow> lognormal_days np g mean_days std_days = Inr (mean_days, g)) \<and>
   (mean_days \<le> 0 \<longrightarrow>
      lognormal_days np g mean_days std_days = Inl (ValueError ''lognormal mean must be > 0'')) \<and>
   (0 < mean_days \<and> std_days < 0 \<longrightarrow>
      lognormal_days np g mean_days std_days = Inl (ValueError ''lognormal std must be >= 0''))"
  by (simp add: lognormal_days_def lognormal_mu_sigma_from_mean_std_def)

lemma lognormal_days_zero_division:
  assumes "0 < mean_days" and "0 < std_days"
    and "py_mul (Finite mean_days) (Finite mean_days) = Finite 0"
  shows "lognormal_days np g mean_days std_days = Inl ZeroDivisionError"
  using assms
  by (simp add: lognormal_days_def lognormal_mu_sigma_from_mean_std_def del: py_mul.simps)

lemma lognormal_infinite_sigma:
  assumes "0 < std" and "py_mul (Finite std) (Finite std) = PosInf"
  shows "lognormal_mu_sigma_from_mean_std 1 std = Inr (NegInf, PosInf)"
  using assms
  by (simp add: lognormal_mu_sigma_from_mean_std_def binary64_one binary64_zero py_sub_def)

section \<open>Lemmas about runs\<close>

lemma heappop_subset: "heappop q = Some (m, q') \<Longrightarrow> set q' \<subseteq> set q"
  using heappop_Some(2) [of q m q'] set_remove1_subset [of m q] by simp

lemma init_entries_not_daily:
  assumes "init_entries t e0 new" and "e \<in> set new"
  shows "\<not> is_daily e"
proof -
  from assms(2) obtain k where "k < length new" "new ! k = e" by (auto simp: in_set_conv_nth)
  with assms(1) show ?thesis by (auto simp: init_entries_def is_daily_def)
qed

lemma filter_daily_init_entries: "init_entries t e0 new \<Longrightarrow> filter is_daily new = []"
  using init_entries_not_daily by (auto simp: filter_empty_conv)

lemma filter_daily_pop:
  assumes "heappop q = Some (m, q')" and "length (filter is_daily q) \<le> 1"
  shows "length (filter is_daily q') \<le> 1" and "is_daily m \<Longrightarrow> filter is_daily q' = []"
proof -
  have q': "q' = remove1 m q" and m: "m \<in> set q" using heappop_Some [OF assms(1)] by auto
  have f: "filter is_daily q' = remove1 m (filter is_daily q)"
    unfolding q' by (rule filter_remove1)
  show "length (filter is_daily q') \<le> 1"
    using assms(2) unfolding f by (simp add: length_remove1)
  assume "is_daily m"
  with m have "m \<in> set (filter is_daily q)" by simp
  then have "length (remove1 m (filter is_daily q)) = length (filter is_daily q) - 1"
    by (simp add: length_remove1)
  with assms(2) show "filter is_daily q' = []" unfolding f by simp
qed

lemma deliver_stock:
  assumes "stock_ok s"
  shows "stock_ok (deliver r quantity s)"
    and "stockout_days (sim_store (deliver r quantity s)) = stockout_days (sim_store s)"
    and "timeseries (deliver r quantity s) = timeseries s"
    and "env_queue (deliver r quantity s) = env_queue s"
    and "env_now (deliver r quantity s) = env_now s"
    and "env_eid (deliver r quantity s) = env_eid s"
  using assms
  by (auto simp: deliver_def receive_def add_on_order_def store_receive_def dc_receive_def
      stock_ok_def Let_def min_def split: receiver.splits)

lemma stock_ok_cong:
  "sim_store s' = sim_store s \<Longrightarrow> sim_dc s' = sim_dc s \<Longrightarrow> stock_ok s' = stock_ok s"
  by (simp add: stock_ok_def)

lemma run_inv_step:
  assumes "run_inv cfg s" and "step np cfg s = Running s'"
  shows "run_inv cfg s'"
  using assms(2)
proof (cases rule: step_Running_cases)
  case (finished t p i q')
  have sub: "set q' \<subseteq> set (env_queue s)"
    using heappop_subset [OF finished(1)] .
  show ?thesis
    using assms(1) filter_daily_pop(1) [OF finished(1)] sub
    unfolding finished(2) run_inv_def by (auto simp: stock_ok_def)
next
  case (daily t p i ev q' d s1)
  let ?s0 = "s\<lparr>env_now := t, env_queue := q'\<rparr>"
  have m: "(t, p, i, ev) \<in> set (env_queue s)" using heappop_Some(1) [OF daily(1)] .
  have dm: "is_daily (t, p, i, ev)" "daily_index ev = Some d"
    using daily(2) by (auto simp: is_daily_def)
  have len: "d = length (timeseries s)" using assms(1) m dm(2) unfolding run_inv_def by fastforce
  have nodaily: "filter is_daily q' = []"
    using filter_daily_pop(2) [OF daily(1) _ dm(1)] assms(1) unfolding run_inv_def by blast
  have st0: "stock_ok ?s0" using assms(1) unfolding run_inv_def by (simp add: stock_ok_def)
  from daily(4) obtain s4 where b: "body_step 3 ?s0 s4" and s1: "s1 = record_row d s4"
    and st4: "stock_ok ?s0 \<longrightarrow> stock_ok s4 \<and> stockout_days (sim_store s4) \<le> stockout_days (sim_store ?s0) + 1"
    by (rule daily_iteration_body)
  from b obtain new where new: "env_queue s4 = q' @ new" "init_entries t (env_eid s) new"
      and ts4: "timeseries s4 = timeseries s"
    unfolding body_step_def by auto
  have ok4: "stock_ok s4" and so4: "stockout_days (sim_store s4) \<le> stockout_days (sim_store s) + 1"
    using st4 st0 by simp_all
  have q: "env_queue s' = q' @ new @ [(fadd (env_now s1) 1, NORMAL, env_eid s1, Wake_daily (Suc d))]"
    unfolding daily(5) s1 by (simp add: schedule_def record_row_def new(1))
  have ts: "timeseries s' = timeseries s @
      [\<lparr>day = real d,
        store_on_hand = real_of_int (on_hand (inventory (sim_store s4))),
        store_backorder = real_of_int (backorder (inventory (sim_store s4))),
        store_on_order = real_of_int (on_order (inventory (sim_store s4))),
        dc_on_hand = real_of_int (on_hand (dc_inventory (sim_dc s4))),
        dc_on_order = real_of_int (on_order (dc_inventory (sim_dc s4)))\<rparr>]"
    unfolding daily(5) s1 by (simp add: schedule_def record_row_def ts4)
  have st': "sim_store s' = sim_store s4" "sim_dc s' = sim_dc s4"
    unfolding daily(5) s1 by (simp_all add: schedule_def record_row_def)
  have 1: "stock_ok s'" using ok4 st' by (simp add: stock_ok_def)
  have 2: "list_all row_ok (timeseries s')"
    using assms(1) ok4 unfolding ts run_inv_def by (simp add: row_ok_def stock_ok_def)
  have 3: "stockout_days (sim_store s') \<le> int (length (timeseries s'))"
    using assms(1) so4 st' unfolding ts run_inv_def by simp
  have 4: "int (length (timeseries s')) \<le> days cfg"
    using daily(3) len unfolding ts by simp
  have 5: "length (filter is_daily (env_queue s')) \<le> 1"
    unfolding q using nodaily filter_daily_init_entries [OF new(2)] by simp
  have 6: "\<forall>e \<in> set (env_queue s'). \<forall>d'. daily_index (event_of e) = Some d' \<longrightarrow> d' = length (timeseries s')"
  proof (intro ballI allI impI)
    fix e d' assume e: "e \<in> set (env_queue s')" and d': "daily_index (event_of e) = Some d'"
    then have "is_daily e" by (simp add: is_daily_def)
    moreover have "e \<notin> set q'" using \<open>is_daily e\<close> nodaily by (auto simp: filter_empty_conv)
    moreover have "e \<notin> set new" using \<open>is_daily e\<close> init_entries_not_daily [OF new(2)] by blast
    ultimately have "e = (fadd (env_now s1) 1, NORMAL, env_eid s1, Wake_daily (Suc d))"
      using e unfolding q by auto
    with d' len show "d' = length (timeseries s')" unfolding ts by simp
  qed
  from 1 2 3 4 5 6 show ?thesis unfolding run_inv_def by blast
next
  case (daily_end t p i ev q' d)
  have sub: "set q' \<subseteq> set (env_queue s)"
    using heappop_subset [OF daily_end(1)] .
  have "\<not> is_daily (env_now s, NORMAL, env_eid s, Process_done)" by (simp add: is_daily_def)
  then show ?thesis
    using assms(1) filter_daily_pop(1) [OF daily_end(1)] sub
    unfolding daily_end(4) run_inv_def by (auto simp: stock_ok_def schedule_def is_daily_def)
next
  case (init_arrival t p i q' r quantity lead)
  have sub: "set q' \<subseteq> set (env_queue s)"
    using heappop_subset [OF init_arrival(1)] .
  show ?thesis
    using assms(1) filter_daily_pop(1) [OF init_arrival(1)] sub
    unfolding init_arrival(3) run_inv_def by (auto simp: stock_ok_def schedule_def is_daily_def)
next
  case (wake_arrival t p i q' r quantity lead born)
  let ?s0 = "s\<lparr>env_now := t, env_queue := q'\<rparr>"
  have sub: "set q' \<subseteq> set (env_queue s)"
    using heappop_subset [OF wake_arrival(1)] .
  have st0: "stock_ok ?s0" using assms(1) unfolding run_inv_def by (simp add: stock_ok_def)
  note d = deliver_stock [OF st0, of r quantity]
  have "stock_ok s'" using d(1) unfolding wake_arrival(2) by (simp add: stock_ok_def schedule_def)
  moreover have "timeseries s' = timeseries s" "sim_store s' = sim_store (deliver r quantity ?s0)"
      "env_queue s' = q' @ [(t, NORMAL, env_eid s, Process_done)]"
    unfolding wake_arrival(2) using d by (simp_all add: schedule_def)
  ultimately show ?thesis
    using assms(1) filter_daily_pop(1) [OF wake_arrival(1)] sub d(2)
    unfolding run_inv_def by (auto simp: is_daily_def)
qed

lemma step_Stopped:
  assumes "step np cfg s = Stopped s'"
  obtains t p i q' where "heappop (env_queue s) = Some ((t, p, i, Until), q')"
    "s' = s\<lparr>env_now := t, env_queue := q'\<rparr>"
proof -
  from assms obtain t p i ev q' where pop: "heappop (env_queue s) = Some ((t, p, i, ev), q')"
    by (cases "heappop (env_queue s)") (auto simp: step_def)
  with assms have "ev = Until \<and> s' = s\<lparr>env_now := t, env_queue := q'\<rparr>"
    by (cases ev) (auto simp: step_def resume_daily_def Let_def split: if_splits sum.splits)
  with pop that show thesis by blast
qed

lemma run_loop_inv:
  assumes "run_inv cfg s" and "run_loop np cfg s = Inr s'"
  shows "stock_ok s' \<and> list_all row_ok (timeseries s') \<and>
         stockout_days (sim_store s') \<le> int (length (timeseries s')) \<and>
         int (length (timeseries s')) \<le> days cfg"
  using assms
proof (induction np cfg s rule: run_loop.induct)
  case (1 np cfg s)
  show ?case
  proof (cases "step np cfg s")
    case (Running s1)
    with "1.prems" have "run_loop np cfg s1 = Inr s'" by (simp add: run_loop.simps [of np cfg s])
    moreover have "run_inv cfg s1" using run_inv_step [OF "1.prems"(1) Running] .
    ultimately show ?thesis using "1.IH" [OF Running] by blast
  next
    case (Stopped s1)
    with "1.prems" have "s1 = s'" by (simp add: run_loop.simps [of np cfg s])
    with Stopped obtain t q' where "s' = s\<lparr>env_now := t, env_queue := q'\<rparr>"
      by (auto elim: step_Stopped)
    with "1.prems"(1) show ?thesis by (simp add: run_inv_def stock_ok_def)
  next
    case (Raised e)
    with "1.prems" show ?thesis by (simp add: run_loop.simps [of np cfg s])
  qed
qed

declare run_loop.simps [simp del]

lemmas run_defs = run_single_def env_run_def start_sim_def initial_sim_def default_rng_def
  schedule_def fadd_def binary64_add_small binary64_add_tie step_def heappop_def resume_daily_def daily_iteration_def realize_demand_def
  clear_backorder_def replenish_store_def replenish_dc_def record_row_def
  schedule_inbound_shipment_def lognormal_days_def lognormal_mu_sigma_from_mean_std_def
  disruption_delay_def poisson_demand_def demand_multiplier_for_day_def consume_demand_def
  ship_to_store_def order_up_to_sS_def inventory_position_def add_on_order_def deliver_def
  receive_def store_receive_def dc_receive_def counting_generator_def two_day_config_def
  URGENT_def NORMAL_def Let_def compute_kpis_def np_mean_def run_loop.simps

lemma two_day_run:
  "run_single counting_generator 0 two_day_config =
     Inr \<lparr>res_config = two_day_config,
          res_kpis =
            \<lparr>kpi_service_level = 1, kpi_fill_rate = 1, kpi_demand_units = 60,
             kpi_fulfilled_units = 60, kpi_stockout_days = 0, kpi_avg_on_hand_store = 55,
             kpi_avg_on_hand_dc = 410, kpi_avg_backorder_store = 0,
             kpi_total_orders_store = 1, kpi_total_orders_dc = 0\<rparr>,
          res_timeseries =
            [\<lparr>day = 0, store_on_hand = 70, store_backorder = 0, store_on_order = 90,
              dc_on_hand = 410, dc_on_order = 0\<rparr>,
             \<lparr>day = 1, store_on_hand = 40, store_backorder = 0, store_on_order = 90,
              dc_on_hand = 410, dc_on_order = 0\<rparr>]\<rparr>"
  by (simp add: run_defs)

lemma run_inv_launch:
  assumes "1 \<le> days cfg" "0 \<le> initial_on_hand_store cfg" "0 \<le> initial_on_hand_dc cfg"
  shows "run_inv cfg (schedule Until URGENT u (start_sim np entropy cfg))"
  using assms
  by (simp add: run_inv_def stock_ok_def schedule_def start_sim_def initial_sim_def is_daily_def)

lemma run_single_launch:
  "run_single np entropy cfg =
     (if days cfg \<le> 0 then Inl (ValueError ''until must be > the current simulation time'')
      else case run_loop np cfg (launch np entropy cfg) of
             Inl e \<Rightarrow> Inl e
           | Inr s \<Rightarrow>
               Inr \<lparr>res_config = cfg,
                    res_kpis = compute_kpis cfg (sim_store s) (sim_dc s) (timeseries s),
                    res_timeseries = timeseries s\<rparr>)"
  by (simp add: run_single_def env_run_def launch_def start_sim_def initial_sim_def schedule_def)

lemma pipeline_pop:
  assumes "heappop q = Some (m, q')"
  shows "pipeline r q = pending_quantity r m + pipeline r q'"
  using heappop_Some(1,2) [OF assms] by (simp add: pipeline_def sum_list_map_remove1)

lemma pipeline_append: "pipeline r (xs @ ys) = pipeline r xs + pipeline r ys"
  by (simp add: pipeline_def)

lemma init_entries_pending:
  assumes "init_entries t e0 new" and "e \<in> set new"
  shows "0 \<le> pending_quantity r e"
proof -
  from assms(2) obtain k where "k < length new" "new ! k = e" by (auto simp: in_set_conv_nth)
  with assms(1) obtain r' q lead where "e = (t, URGENT, e0 + k, Init_arrival r' q lead)" "0 < q"
    unfolding init_entries_def by metis
  then show ?thesis by simp
qed

lemma deliver_on_order:
  "on_order (receiver_inventory r' (deliver r quantity s)) =
     on_order (receiver_inventory r' s) - (if r' = r then quantity else 0)"
  by (cases r; cases r')
     (simp_all add: deliver_def receive_def add_on_order_def receiver_inventory_def
        store_receive_def dc_receive_def Let_def)

lemma receiver_inventory_env [simp]:
  "receiver_inventory r (s\<lparr>env_now := t, env_queue := q\<rparr>) = receiver_inventory r s"
  "receiver_inventory r (schedule ev p dl s) = receiver_inventory r s"
  "receiver_inventory r (record_row d s) = receiver_inventory r s"
  by (simp_all add: receiver_inventory_def schedule_def record_row_def split: receiver.splits)

lemma pipeline_inv_replace:
  assumes "pipeline_inv s" and "heappop (env_queue s) = Some (m, q')"
    and "env_queue s' = q' @ new"
    and "\<And>r. on_order (receiver_inventory r s') =
           on_order (receiver_inventory r s) - pending_quantity r m + pipeline r new"
    and "\<And>e r. e \<in> set new \<Longrightarrow> 0 \<le> pending_quantity r e"
  shows "pipeline_inv s'"
proof -
  have 1: "on_order (receiver_inventory r s') = pipeline r (env_queue s')" for r
    using assms(1) pipeline_pop [OF assms(2), of r] assms(4) [of r]
    unfolding assms(3) pipeline_inv_def by (simp add: pipeline_append)
  have 2: "0 \<le> pending_quantity r e" if "e \<in> set (env_queue s')" for e r
  proof -
    from that consider "e \<in> set q'" | "e \<in> set new" unfolding assms(3) by auto
    then show ?thesis
    proof cases
      case 1
      then show ?thesis using assms(1) heappop_subset [OF assms(2)] unfolding pipeline_inv_def by blast
    next
      case 2
      then show ?thesis by (rule assms(5))
    qed
  qed
  from 1 2 show ?thesis unfolding pipeline_inv_def by blast
qed

lemma pipeline_inv_step:
  assumes "pipeline_inv s" and "step np cfg s = Running s'"
  shows "pipeline_inv s'"
  using assms(2)
proof (cases rule: step_Running_cases)
  case (finished t p i q')
  show ?thesis
    by (rule pipeline_inv_replace [OF assms(1) finished(1), where new = "[]"])
       (simp_all add: finished(2) pipeline_def)
next
  case (daily t p i ev q' d s1)
  let ?s0 = "s\<lparr>env_now := t, env_queue := q'\<rparr>"
  from daily(4) obtain s4 where b: "body_step 3 ?s0 s4" and s1: "s1 = record_row d s4"
    by (rule daily_iteration_body)
  from b obtain new where new: "env_queue s4 = q' @ new" "init_entries t (env_eid s) new"
      "\<forall>r. on_order (receiver_inventory r s4) = on_order (receiver_inventory r ?s0) + pipeline r new"
    unfolding body_step_def by auto
  let ?w = "(fadd (env_now s1) 1, NORMAL, env_eid s1, Wake_daily (Suc d))"
  have ev0: "pending_quantity r (t, p, i, ev) = 0" for r using daily(2) by auto
  show ?thesis
  proof (rule pipeline_inv_replace [OF assms(1) daily(1), where new = "new @ [?w]"])
    show "env_queue s' = q' @ new @ [?w]"
      unfolding daily(5) s1 by (simp add: schedule_def record_row_def new(1))
    show "on_order (receiver_inventory r s') =
        on_order (receiver_inventory r s) - pending_quantity r (t, p, i, ev) + pipeline r (new @ [?w])" for r
      unfolding daily(5) s1 using new(3) ev0 by (simp add: pipeline_append) (simp add: pipeline_def)
    show "0 \<le> pending_quantity r e" if "e \<in> set (new @ [?w])" for e r
      using that init_entries_pending [OF new(2), of e r] by auto
  qed
next
  case (daily_end t p i ev q' d)
  have ev0: "pending_quantity r (t, p, i, ev) = 0" for r using daily_end(2) by auto
  show ?thesis
  proof (rule pipeline_inv_replace [OF assms(1) daily_end(1),
          where new = "[(t, NORMAL, env_eid s, Process_done)]"])
    show "env_queue s' = q' @ [(t, NORMAL, env_eid s, Process_done)]"
      unfolding daily_end(4) by (simp add: schedule_def)
    show "on_order (receiver_inventory r s') =
        on_order (receiver_inventory r s) - pending_quantity r (t, p, i, ev) +
        pipeline r [(t, NORMAL, env_eid s, Process_done)]" for r
      unfolding daily_end(4) by (simp add: ev0 pipeline_def)
    show "0 \<le> pending_quantity r e" if "e \<in> set [(t, NORMAL, env_eid s, Process_done)]" for e r
      using that by simp
  qed
next
  case (init_arrival t p i q' r quantity lead)
  have m: "(t, p, i, Init_arrival r quantity lead) \<in> set (env_queue s)"
    using heappop_Some(1) [OF init_arrival(1)] .
  have pos: "0 \<le> pending_quantity r' (t, p, i, Init_arrival r quantity lead)" for r'
    using assms(1) m unfolding pipeline_inv_def by blast
  show ?thesis
  proof (rule pipeline_inv_replace [OF assms(1) init_arrival(1),
          where new = "[(fadd t lead, NORMAL, env_eid s, Wake_arrival r quantity lead t)]"])
    show "env_queue s' = q' @ [(fadd t lead, NORMAL, env_eid s, Wake_arrival r quantity lead t)]"
      unfolding init_arrival(3) by (simp add: schedule_def)
    show "on_order (receiver_inventory r' s') =
        on_order (receiver_inventory r' s) - pending_quantity r' (t, p, i, Init_arrival r quantity lead) +
        pipeline r' [(fadd t lead, NORMAL, env_eid s, Wake_arrival r quantity lead t)]" for r'
      unfolding init_arrival(3) by (simp add: pipeline_def)
    show "0 \<le> pending_quantity r' e"
      if "e \<in> set [(fadd t lead, NORMAL, env_eid s, Wake_arrival r quantity lead t)]" for e r'
      using that pos [of r'] by simp
  qed
next
  case (wake_arrival t p i q' r quantity lead born)
  let ?s0 = "s\<lparr>env_now := t, env_queue := q'\<rparr>"
  show ?thesis
  proof (rule pipeline_inv_replace [OF assms(1) wake_arrival(1),
          where new = "[(t, NORMAL, env_eid s, Process_done)]"])
    show "env_queue s' = q' @ [(t, NORMAL, env_eid s, Process_done)]"
      unfolding wake_arrival(2)
      by (simp add: schedule_def deliver_def receive_def add_on_order_def split: receiver.splits)
    show "on_order (receiver_inventory r' s') =
        on_order (receiver_inventory r' s) - pending_quantity r' (t, p, i, Wake_arrival r quantity lead born) +
        pipeline r' [(t, NORMAL, env_eid s, Process_done)]" for r'
      unfolding wake_arrival(2) by (simp add: deliver_on_order pipeline_def)
    show "0 \<le> pending_quantity r' e" if "e \<in> set [(t, NORMAL, env_eid s, Process_done)]" for e r'
      using that by simp
  qed
qed

lemma pipeline_inv_launch: "pipeline_inv (launch np entropy cfg)"
  by (simp add: pipeline_inv_def launch_def start_sim_def initial_sim_def schedule_def
      receiver_inventory_def pipeline_def split: receiver.splits)

lemma pipeline_inv_steps:
  assumes "pipeline_inv s"
    and "steps np cfg n s = Running s' \<or> steps np cfg n s = Stopped s'"
  shows "pipeline_inv s'"
  using assms
proof (induction n arbitrary: s)
  case 0
  then show ?case by simp
next
  case (Suc n)
  show ?case
  proof (cases "step np cfg s")
    case (Running s1)
    with Suc.prems(2) have "steps np cfg n s1 = Running s' \<or> steps np cfg n s1 = Stopped s'" by simp
    with Suc.IH [OF pipeline_inv_step [OF Suc.prems(1) Running]] show ?thesis by blast
  next
    case (Stopped s1)
    with Suc.prems(2) have "s1 = s'" by simp
    with Stopped obtain t p i q' where pop: "heappop (env_queue s) = Some ((t, p, i, Until), q')"
      and s': "s' = s\<lparr>env_now := t, env_queue := q'\<rparr>"
      by (auto elim: step_Stopped)
    show ?thesis
      using Suc.prems(1) pipeline_pop [OF pop] heappop_subset [OF pop]
      unfolding s' pipeline_inv_def by auto
  next
    case (Raised e)
    with Suc.prems(2) show ?thesis by simp
  qed
qed

lemma pipeline_nonneg: "\<forall>e \<in> set q. 0 \<le> pending_quantity r e \<Longrightarrow> 0 \<le> pipeline r q"
  unfolding pipeline_def by (induction q) auto

lemma not_entry_less_time: "\<not> entry_less e m \<Longrightarrow> time_of m \<le> time_of e"
  by (cases e; cases m) auto

lemma init_entries_elem:
  assumes "init_entries t e0 new" and "e \<in> set new"
  obtains k r q lead where "k < length new" "e = (t, URGENT, e0 + k, Init_arrival r q lead)"
proof -
  from assms(2) obtain k where "k < length new" "new ! k = e" by (auto simp: in_set_conv_nth)
  with assms(1) that show thesis unfolding init_entries_def by metis
qed

lemma deliver_env:
  "env_queue (deliver r quantity s) = env_queue s"
  "env_now (deliver r quantity s) = env_now s"
  "env_eid (deliver r quantity s) = env_eid s"
  "timeseries (deliver r quantity s) = timeseries s"
  by (simp_all add: deliver_def receive_def add_on_order_def split: receiver.splits)

lemma sched_invD:
  assumes "sched_inv cfg s" and "e \<in> set (env_queue s)"
  shows "env_now s \<le> time_of e" and "eid_of e < env_eid s"
    and "event_of e = Wake_daily d \<Longrightarrow>
           time_of e = real d \<and> priority_of e = NORMAL \<and> real d - 1 \<le> env_now s \<and>
           0 < d \<and> int d \<le> days cfg"
    and "event_of e = Init_daily \<Longrightarrow>
           env_queue s = [(0, URGENT, 0, Init_daily), (real_of_int (days cfg), URGENT, 1, Until)]"
    and "event_of e = Init_arrival r k l \<Longrightarrow> time_of e = env_now s \<and> priority_of e = URGENT"
    and "event_of e = Wake_arrival r k l b \<Longrightarrow> priority_of e = NORMAL"
    and "daily_index (event_of e) = Some d \<Longrightarrow> d = length (timeseries s)"
  using assms unfolding sched_inv_def by blast+

lemma sched_inv_queue:
  assumes "sched_inv cfg s"
  shows "(real_of_int (days cfg), URGENT, 1, Until) \<in> set (env_queue s)"
    and "\<exists>e \<in> set (env_queue s). is_daily e"
    and "length (filter is_daily (env_queue s)) \<le> 1"
  using assms unfolding sched_inv_def by blast+

lemma sched_inv_init_day:
  assumes "sched_inv cfg s" and "e \<in> set (env_queue s)" and "e' \<in> set (env_queue s)"
    and "event_of e = Init_arrival r k l" and "event_of e' = Wake_daily d"
  shows "env_now s = real d - 1"
  using assms unfolding sched_inv_def by blast

lemma sched_inv_order:
  assumes "sched_inv cfg s" and "e \<in> set (env_queue s)" and "e' \<in> set (env_queue s)"
    and "event_of e = Wake_arrival r k l b" and "event_of e' = Wake_daily d"
  shows "b \<le> real d - 1" and "b < real d - 1 \<Longrightarrow> eid_of e < eid_of e'"
    and "b = real d - 1 \<Longrightarrow> eid_of e' < eid_of e"
  using assms unfolding sched_inv_def by blast+

text \<open>An event that does not belong to the daily process is popped.\<close>

lemma sched_inv_keep:
  assumes inv: "sched_inv cfg s" and pop: "heappop (env_queue s) = Some (m, q')"
    and nd: "\<not> is_daily m" and nu: "event_of m \<noteq> Until"
    and q: "env_queue s' = q' @ new" and now: "env_now s' = time_of m"
    and eid: "env_eid s \<le> env_eid s'" and ts: "timeseries s' = timeseries s"
    and new_ok: "\<And>e. e \<in> set new \<Longrightarrow>
        time_of m \<le> time_of e \<and> env_eid s \<le> eid_of e \<and> eid_of e < env_eid s' \<and>
        priority_of e = NORMAL \<and>
        (event_of e = Process_done \<or>
         (\<exists>r k l. event_of m = Init_arrival r k l \<and> event_of e = Wake_arrival r k l (time_of m)))"
  shows "sched_inv cfg s'"
proof -
  note p = heappop_Some [OF pop]
  have sub: "set q' \<subseteq> set (env_queue s)" by (rule heappop_subset [OF pop])
  have keep: "e \<in> set q'" if "e \<in> set (env_queue s)" "e \<noteq> m" for e
    using that unfolding p(2) by simp
  have now_m: "env_now s \<le> time_of m" using sched_invD(1) [OF inv p(1)] .
  have ge: "time_of m \<le> time_of e" if "e \<in> set q'" for e
    using p(3) sub that not_entry_less_time by blast
  have new_ev: "\<not> is_daily e \<and> (\<forall>r k l. event_of e \<noteq> Init_arrival r k l)" if "e \<in> set new" for e
    using new_ok [OF that] by (auto simp: is_daily_def)
  have split: "e \<in> set q' \<or> e \<in> set new" if "e \<in> set (env_queue s')" for e
    using that unfolding q by auto
  have old_daily: "e \<in> set (env_queue s)" if "e \<in> set (env_queue s')" "is_daily e" for e
    using split [OF that(1)] new_ev that(2) sub by blast
  have c1: "\<forall>e \<in> set (env_queue s'). env_now s' \<le> time_of e \<and> eid_of e < env_eid s'"
  proof
    fix e assume "e \<in> set (env_queue s')"
    from split [OF this] show "env_now s' \<le> time_of e \<and> eid_of e < env_eid s'"
    proof
      assume e: "e \<in> set q'"
      then have "eid_of e < env_eid s" using sched_invD(2) [OF inv] sub by blast
      with ge [OF e] eid now show ?thesis by simp
    next
      assume "e \<in> set new"
      from new_ok [OF this] now show ?thesis by simp
    qed
  qed
  have c2: "(real_of_int (days cfg), URGENT, 1, Until) \<in> set (env_queue s')"
  proof -
    have "(real_of_int (days cfg), URGENT, 1, Until) \<noteq> m" using nu by auto
    from keep [OF sched_inv_queue(1) [OF inv] this] show ?thesis unfolding q by simp
  qed
  have c3: "\<exists>e \<in> set (env_queue s'). is_daily e"
  proof -
    from sched_inv_queue(2) [OF inv] obtain e where e: "e \<in> set (env_queue s)" "is_daily e" by blast
    with nd have "e \<noteq> m" by blast
    from keep [OF e(1) this] e(2) show ?thesis unfolding q by auto
  qed
  have c4: "length (filter is_daily (env_queue s')) \<le> 1"
  proof -
    have "filter is_daily new = []" using new_ev by (auto simp: filter_empty_conv)
    then show ?thesis
      unfolding q using filter_daily_pop(1) [OF pop sched_inv_queue(3) [OF inv]] by simp
  qed
  have c5: "\<forall>e \<in> set (env_queue s'). \<forall>d. daily_index (event_of e) = Some d \<longrightarrow>
      d = length (timeseries s')"
  proof (intro ballI allI impI)
    fix e d assume e: "e \<in> set (env_queue s')" and d: "daily_index (event_of e) = Some d"
    then have "is_daily e" by (simp add: is_daily_def)
    from sched_invD(7) [OF inv old_daily [OF e this] d] ts
    show "d = length (timeseries s')" by simp
  qed
  have c6: "\<forall>e \<in> set (env_queue s'). \<forall>d. event_of e = Wake_daily d \<longrightarrow>
      time_of e = real d \<and> priority_of e = NORMAL \<and> real d - 1 \<le> env_now s' \<and>
      0 < d \<and> int d \<le> days cfg"
  proof (intro ballI allI impI)
    fix e d assume e: "e \<in> set (env_queue s')" and d: "event_of e = Wake_daily d"
    then have "is_daily e" by (simp add: is_daily_def)
    from sched_invD(3) [OF inv old_daily [OF e this] d] now_m now
    show "time_of e = real d \<and> priority_of e = NORMAL \<and> real d - 1 \<le> env_now s' \<and>
      0 < d \<and> int d \<le> days cfg" by simp
  qed
  have c7: "\<forall>e \<in> set (env_queue s'). event_of e = Init_daily \<longrightarrow>
      env_queue s' = [(0, URGENT, 0, Init_daily), (real_of_int (days cfg), URGENT, 1, Until)]"
  proof (intro ballI impI)
    fix e assume e: "e \<in> set (env_queue s')" and i: "event_of e = Init_daily"
    then have "is_daily e" by (simp add: is_daily_def)
    from sched_invD(4) [OF inv old_daily [OF e this] i] p(1) nd nu
    have False by (auto simp: is_daily_def)
    then show "env_queue s' = [(0, URGENT, 0, Init_daily), (real_of_int (days cfg), URGENT, 1, Until)]" ..
  qed
  have c8: "\<forall>e \<in> set (env_queue s'). \<forall>r k l. event_of e = Init_arrival r k l \<longrightarrow>
      time_of e = env_now s' \<and> priority_of e = URGENT \<and>
      (\<forall>e' \<in> set (env_queue s'). \<forall>d. event_of e' = Wake_daily d \<longrightarrow> env_now s' = real d - 1)"
  proof (intro ballI allI impI)
    fix e r k l assume e: "e \<in> set (env_queue s')" and i: "event_of e = Init_arrival r k l"
    from split [OF e] new_ev i have eq: "e \<in> set q'" by blast
    then have eo: "e \<in> set (env_queue s)" using sub by blast
    have a: "time_of e = env_now s \<and> priority_of e = URGENT" using sched_invD(5) [OF inv eo i] .
    with ge [OF eq] now_m now have same: "env_now s' = env_now s" by simp
    have "env_now s' = real d - 1" if "e' \<in> set (env_queue s')" "event_of e' = Wake_daily d" for e' d
    proof -
      from that have "is_daily e'" by (simp add: is_daily_def)
      from sched_inv_init_day [OF inv eo old_daily [OF that(1) this] i that(2)] same
      show ?thesis by simp
    qed
    with a same show "time_of e = env_now s' \<and> priority_of e = URGENT \<and>
      (\<forall>e' \<in> set (env_queue s'). \<forall>d. event_of e' = Wake_daily d \<longrightarrow> env_now s' = real d - 1)"
      by simp
  qed
  have c9: "\<forall>e \<in> set (env_queue s'). \<forall>r k l b. event_of e = Wake_arrival r k l b \<longrightarrow>
      priority_of e = NORMAL \<and>
      (\<forall>e' \<in> set (env_queue s'). \<forall>d. event_of e' = Wake_daily d \<longrightarrow>
         b \<le> real d - 1 \<and> (b < real d - 1 \<longrightarrow> eid_of e < eid_of e') \<and>
         (b = real d - 1 \<longrightarrow> eid_of e' < eid_of e))"
  proof (intro ballI allI impI)
    fix e r k l b assume e: "e \<in> set (env_queue s')" and w: "event_of e = Wake_arrival r k l b"
    have pr: "priority_of e = NORMAL"
    proof -
      from split [OF e] show ?thesis
      proof
        assume "e \<in> set q'"
        then show ?thesis using sched_invD(6) [OF inv _ w] sub by blast
      next
        assume "e \<in> set new"
        from new_ok [OF this] show ?thesis by simp
      qed
    qed
    have ord: "b \<le> real d - 1 \<and> (b < real d - 1 \<longrightarrow> eid_of e < eid_of e') \<and>
        (b = real d - 1 \<longrightarrow> eid_of e' < eid_of e)"
      if e': "e' \<in> set (env_queue s')" and d: "event_of e' = Wake_daily d" for e' d
    proof -
      from d have "is_daily e'" by (simp add: is_daily_def)
      then have e'o: "e' \<in> set (env_queue s)" using old_daily [OF e'] by blast
      from split [OF e] show ?thesis
      proof
        assume "e \<in> set q'"
        then have "e \<in> set (env_queue s)" using sub by blast
        from sched_inv_order [OF inv this e'o w d] show ?thesis by blast
      next
        assume en: "e \<in> set new"
        from new_ok [OF en] w obtain r' k' l' where
          m: "event_of m = Init_arrival r' k' l'" and b: "b = time_of m" and i: "env_eid s \<le> eid_of e"
          by auto
        have "time_of m = env_now s" using sched_invD(5) [OF inv p(1) m] by simp
        moreover have "env_now s = real d - 1" using sched_inv_init_day [OF inv p(1) e'o m d] .
        moreover have "eid_of e' < env_eid s" using sched_invD(2) [OF inv e'o] .
        ultimately show ?thesis using b i by simp
      qed
    qed
    from pr ord show "priority_of e = NORMAL \<and>
      (\<forall>e' \<in> set (env_queue s'). \<forall>d. event_of e' = Wake_daily d \<longrightarrow>
         b \<le> real d - 1 \<and> (b < real d - 1 \<longrightarrow> eid_of e < eid_of e') \<and>
         (b = real d - 1 \<longrightarrow> eid_of e' < eid_of e))"
      by blast
  qed
  show ?thesis unfolding sched_inv_def by (intro conjI c1 c2 c3 c4 c5 c6 c7 c8 c9)
qed

text \<open>
  The event of the daily process is popped: the stop event is still ahead, so the
  loop has an iteration left; no arrival process is waiting to start, and every
  pending arrival timeout was created before this day.
\<close>

lemma sched_inv_daily_pop:
  assumes inv: "sched_inv cfg s" and horizon: "0 < days cfg"
    and pop: "heappop (env_queue s) = Some ((t, p, i, ev), q')"
    and ev: "ev = Init_daily \<and> d = 0 \<or> ev = Wake_daily d"
  shows "t = real d" and "int d < days cfg" and "d = length (timeseries s)"
    and "filter is_daily q' = []"
    and "\<And>e r k l. e \<in> set q' \<Longrightarrow> event_of e \<noteq> Init_arrival r k l"
    and "\<And>e r k l b. e \<in> set q' \<Longrightarrow> event_of e = Wake_arrival r k l b \<Longrightarrow>
           b \<le> real d - 1 \<and> real d \<le> time_of e \<and>
           (time_of e = real d \<longrightarrow> b = real d - 1)"
proof -
  note hp = heappop_Some [OF pop]
  have sub: "set q' \<subseteq> set (env_queue s)" by (rule heappop_subset [OF pop])
  have dm: "is_daily (t, p, i, ev)" "daily_index ev = Some d"
    using ev by (auto simp: is_daily_def)
  have launchq: "env_queue s = [(0, URGENT, 0, Init_daily), (real_of_int (days cfg), URGENT, 1, Until)]"
    if "ev = Init_daily"
    using sched_invD(4) [OF inv hp(1)] that by simp
  have q'_launch: "q' = [(real_of_int (days cfg), URGENT, 1, Until)]" "t = 0" if "ev = Init_daily"
  proof -
    from launchq [OF that] hp(1) that have m: "(t, p, i, ev) = (0, URGENT, 0, Init_daily)" by auto
    with launchq [OF that] hp(2) show "q' = [(real_of_int (days cfg), URGENT, 1, Until)]" by simp
    from m show "t = 0" by simp
  qed
  have wake: "t = real d \<and> p = NORMAL \<and> real d - 1 \<le> env_now s" if "ev = Wake_daily d"
    using sched_invD(3) [OF inv hp(1), of d] that by simp
  show t: "t = real d"
  proof (cases "ev = Init_daily")
    case True
    with ev q'_launch(2) show ?thesis by auto
  next
    case False
    with ev wake show ?thesis by simp
  qed
  show "int d < days cfg"
  proof (cases "ev = Init_daily")
    case True
    with ev horizon show ?thesis by auto
  next
    case False
    with ev have w: "ev = Wake_daily d" by simp
    have "\<not> entry_less (real_of_int (days cfg), URGENT, 1, Until) (t, p, i, ev)"
      using hp(3) sched_inv_queue(1) [OF inv] by blast
    with wake [OF w] have "real d < real_of_int (days cfg)"
      by (simp add: URGENT_def NORMAL_def)
    then show ?thesis by linarith
  qed
  show "d = length (timeseries s)" using sched_invD(7) [OF inv hp(1)] dm(2) by simp
  show "filter is_daily q' = []"
    using filter_daily_pop(2) [OF pop sched_inv_queue(3) [OF inv] dm(1)] .
  show "event_of e \<noteq> Init_arrival r k l" if e: "e \<in> set q'" for e r k l
  proof
    assume i: "event_of e = Init_arrival r k l"
    have eo: "e \<in> set (env_queue s)" using e sub by blast
    show False
    proof (cases "ev = Init_daily")
      case True
      with q'_launch(1) e i show False by simp
    next
      case False
      with ev have w: "ev = Wake_daily d" by simp
      obtain te pe ie eve where e_eq: "e = (te, pe, ie, eve)" by (cases e)
      have "te = env_now s" "pe = URGENT" using sched_invD(5) [OF inv eo i] e_eq by simp_all
      moreover have "env_now s \<le> t" using sched_invD(1) [OF inv hp(1)] by simp
      moreover have "\<not> entry_less e (t, p, i, ev)" using hp(3) eo by blast
      ultimately show False using wake [OF w] e_eq by (simp add: URGENT_def NORMAL_def)
    qed
  qed
  show "b \<le> real d - 1 \<and> real d \<le> time_of e \<and> (time_of e = real d \<longrightarrow> b = real d - 1)"
    if e: "e \<in> set q'" and a: "event_of e = Wake_arrival r k l b" for e r k l b
  proof (cases "ev = Init_daily")
    case True
    with q'_launch(1) e a show ?thesis by simp
  next
    case False
    with ev have w: "ev = Wake_daily d" by simp
    have eo: "e \<in> set (env_queue s)" using e sub by blast
    have mw: "event_of (t, p, i, ev) = Wake_daily d" using w by simp
    note o = sched_inv_order [OF inv eo hp(1) a mw]
    obtain te pe ie eve where e_eq: "e = (te, pe, ie, eve)" by (cases e)
    have pe: "pe = NORMAL" using sched_invD(6) [OF inv eo a] e_eq by simp
    have nl: "\<not> entry_less e (t, p, i, ev)" using hp(3) eo by blast
    with wake [OF w] e_eq pe have ge: "real d \<le> te" and tie: "te = real d \<longrightarrow> \<not> ie < i"
      by auto
    have "b = real d - 1" if "te = real d"
    proof (rule ccontr)
      assume "b \<noteq> real d - 1"
      with o(1) have "b < real d - 1" by simp
      from o(2) [OF this] e_eq have "ie < i" by simp
      with tie that show False by simp
    qed
    with o(1) ge e_eq show ?thesis by simp
  qed
qed

text \<open>One iteration of the daily process.\<close>

lemma sched_inv_daily:
  assumes big: "days cfg \<le> 2 ^ 53" and inv: "sched_inv cfg s" and horizon: "0 < days cfg"
    and pop: "heappop (env_queue s) = Some ((t, p, i, ev), q')"
    and ev: "ev = Init_daily \<and> d = 0 \<or> ev = Wake_daily d"
    and body: "body_step 3 (s\<lparr>env_now := t, env_queue := q'\<rparr>) s4"
    and s': "s' = schedule (Wake_daily (Suc d)) NORMAL 1 (record_row d s4)"
  shows "sched_inv cfg s'"
proof -
  note hp = heappop_Some [OF pop]
  note dp = sched_inv_daily_pop [OF inv horizon pop ev]
  have sub: "set q' \<subseteq> set (env_queue s)" by (rule heappop_subset [OF pop])
  from body obtain new where new: "env_queue s4 = q' @ new" "init_entries t (env_eid s) new"
      "env_eid s4 = env_eid s + length new" "env_now s4 = t" "timeseries s4 = timeseries s"
    unfolding body_step_def by auto
  have "int (Suc d) \<le> 2 ^ 53" using dp(2) big by simp
  then have wt: "fadd t 1 = real (Suc d)" using fadd_next_day [of d] dp(1) by simp
  let ?w = "(real (Suc d), NORMAL, env_eid s + length new, Wake_daily (Suc d))"
  have q: "env_queue s' = q' @ new @ [?w]" and now: "env_now s' = real d"
    and eid: "env_eid s' = Suc (env_eid s + length new)"
    and ts: "length (timeseries s') = Suc d"
    unfolding s' using wt dp(1,3) by (simp_all add: schedule_def record_row_def new)
  have split: "e \<in> set q' \<or> e \<in> set new \<or> e = ?w" if "e \<in> set (env_queue s')" for e
    using that unfolding q by auto
  have ge: "real d \<le> time_of e" if "e \<in> set q'" for e
    using hp(3) sub that not_entry_less_time [of e "(t, p, i, ev)"] dp(1) by auto
  have q'_nd: "\<not> is_daily e" if "e \<in> set q'" for e
    using dp(4) that by (auto simp: filter_empty_conv)
  have new_el: "\<exists>k r q lead. k < length new \<and> e = (real d, URGENT, env_eid s + k, Init_arrival r q lead)"
    if "e \<in> set new" for e
    using init_entries_elem [OF new(2) that] dp(1) by metis
  have daily_w: "e = ?w" if "e \<in> set (env_queue s')" "is_daily e" for e
  proof -
    from split [OF that(1)] consider "e \<in> set q'" | "e \<in> set new" | "e = ?w" by blast
    then show ?thesis
    proof cases
      case 1
      with q'_nd that(2) show ?thesis by blast
    next
      case 2
      from new_el [OF 2] obtain k r q lead where
        "e = (real d, URGENT, env_eid s + k, Init_arrival r q lead)" by blast
      with that(2) show ?thesis by (simp add: is_daily_def)
    next
      case 3
      then show ?thesis .
    qed
  qed
  have c1: "\<forall>e \<in> set (env_queue s'). env_now s' \<le> time_of e \<and> eid_of e < env_eid s'"
  proof
    fix e assume "e \<in> set (env_queue s')"
    from split [OF this] consider "e \<in> set q'" | "e \<in> set new" | "e = ?w" by blast
    then show "env_now s' \<le> time_of e \<and> eid_of e < env_eid s'"
    proof cases
      case 1
      then have "eid_of e < env_eid s" using sched_invD(2) [OF inv] sub by blast
      with ge [OF 1] now eid show ?thesis by simp
    next
      case 2
      from new_el [OF 2] now eid show ?thesis by auto
    next
      case 3
      with now eid show ?thesis by simp
    qed
  qed
  have c2: "(real_of_int (days cfg), URGENT, 1, Until) \<in> set (env_queue s')"
  proof -
    have "(real_of_int (days cfg), URGENT, 1, Until) \<noteq> (t, p, i, ev)" using ev by auto
    then have "(real_of_int (days cfg), URGENT, 1, Until) \<in> set q'"
      using sched_inv_queue(1) [OF inv] unfolding hp(2) by simp
    then show ?thesis unfolding q by simp
  qed
  have c3: "\<exists>e \<in> set (env_queue s'). is_daily e"
    unfolding q by (simp add: is_daily_def)
  have c4: "length (filter is_daily (env_queue s')) \<le> 1"
    unfolding q using dp(4) filter_daily_init_entries [OF new(2)] by simp
  have c5: "\<forall>e \<in> set (env_queue s'). \<forall>d'. daily_index (event_of e) = Some d' \<longrightarrow>
      d' = length (timeseries s')"
  proof (intro ballI allI impI)
    fix e d' assume e: "e \<in> set (env_queue s')" and d': "daily_index (event_of e) = Some d'"
    then have "is_daily e" by (simp add: is_daily_def)
    from daily_w [OF e this] d' ts show "d' = length (timeseries s')" by simp
  qed
  have c6: "\<forall>e \<in> set (env_queue s'). \<forall>d'. event_of e = Wake_daily d' \<longrightarrow>
      time_of e = real d' \<and> priority_of e = NORMAL \<and> real d' - 1 \<le> env_now s' \<and>
      0 < d' \<and> int d' \<le> days cfg"
  proof (intro ballI allI impI)
    fix e d' assume e: "e \<in> set (env_queue s')" and d': "event_of e = Wake_daily d'"
    then have "is_daily e" by (simp add: is_daily_def)
    from daily_w [OF e this] d' now dp(2)
    show "time_of e = real d' \<and> priority_of e = NORMAL \<and> real d' - 1 \<le> env_now s' \<and>
      0 < d' \<and> int d' \<le> days cfg" by auto
  qed
  have c7: "\<forall>e \<in> set (env_queue s'). event_of e = Init_daily \<longrightarrow>
      env_queue s' = [(0, URGENT, 0, Init_daily), (real_of_int (days cfg), URGENT, 1, Until)]"
  proof (intro ballI impI)
    fix e assume e: "e \<in> set (env_queue s')" and i: "event_of e = Init_daily"
    then have "is_daily e" by (simp add: is_daily_def)
    from daily_w [OF e this] i have False by simp
    then show "env_queue s' = [(0, URGENT, 0, Init_daily), (real_of_int (days cfg), URGENT, 1, Until)]" ..
  qed
  have c8: "\<forall>e \<in> set (env_queue s'). \<forall>r k l. event_of e = Init_arrival r k l \<longrightarrow>
      time_of e = env_now s' \<and> priority_of e = URGENT \<and>
      (\<forall>e' \<in> set (env_queue s'). \<forall>d'. event_of e' = Wake_daily d' \<longrightarrow> env_now s' = real d' - 1)"
  proof (intro ballI allI impI)
    fix e r k l assume e: "e \<in> set (env_queue s')" and i: "event_of e = Init_arrival r k l"
    have "e \<notin> set q'" using dp(5) i by blast
    moreover have "e \<noteq> ?w" using i by auto
    ultimately have "e \<in> set new" using split [OF e] by blast
    from new_el [OF this] now have a: "time_of e = env_now s' \<and> priority_of e = URGENT" by auto
    have "env_now s' = real d' - 1" if "e' \<in> set (env_queue s')" "event_of e' = Wake_daily d'" for e' d'
    proof -
      from that have "is_daily e'" by (simp add: is_daily_def)
      from daily_w [OF that(1) this] that(2) now show ?thesis by auto
    qed
    with a show "time_of e = env_now s' \<and> priority_of e = URGENT \<and>
      (\<forall>e' \<in> set (env_queue s'). \<forall>d'. event_of e' = Wake_daily d' \<longrightarrow> env_now s' = real d' - 1)"
      by simp
  qed
  have c9: "\<forall>e \<in> set (env_queue s'). \<forall>r k l b. event_of e = Wake_arrival r k l b \<longrightarrow>
      priority_of e = NORMAL \<and>
      (\<forall>e' \<in> set (env_queue s'). \<forall>d'. event_of e' = Wake_daily d' \<longrightarrow>
         b \<le> real d' - 1 \<and> (b < real d' - 1 \<longrightarrow> eid_of e < eid_of e') \<and>
         (b = real d' - 1 \<longrightarrow> eid_of e' < eid_of e))"
  proof (intro ballI allI impI)
    fix e r k l b assume e: "e \<in> set (env_queue s')" and w: "event_of e = Wake_arrival r k l b"
    have "e \<notin> set new"
    proof
      assume "e \<in> set new"
      from new_el [OF this] w show False by auto
    qed
    moreover have "e \<noteq> ?w" using w by auto
    ultimately have eq: "e \<in> set q'" using split [OF e] by blast
    then have eo: "e \<in> set (env_queue s)" using sub by blast
    have pr: "priority_of e = NORMAL" using sched_invD(6) [OF inv eo w] .
    have b: "b \<le> real d - 1" using dp(6) [OF eq w] by simp
    have i: "eid_of e < env_eid s" using sched_invD(2) [OF inv eo] .
    have "b \<le> real d' - 1 \<and> (b < real d' - 1 \<longrightarrow> eid_of e < eid_of e') \<and>
        (b = real d' - 1 \<longrightarrow> eid_of e' < eid_of e)"
      if "e' \<in> set (env_queue s')" "event_of e' = Wake_daily d'" for e' d'
    proof -
      from that have "is_daily e'" by (simp add: is_daily_def)
      from daily_w [OF that(1) this] that(2) have "e' = ?w" "d' = Suc d" by auto
      with b i show ?thesis by simp
    qed
    with pr show "priority_of e = NORMAL \<and>
      (\<forall>e' \<in> set (env_queue s'). \<forall>d'. event_of e' = Wake_daily d' \<longrightarrow>
         b \<le> real d' - 1 \<and> (b < real d' - 1 \<longrightarrow> eid_of e < eid_of e') \<and>
         (b = real d' - 1 \<longrightarrow> eid_of e' < eid_of e))"
      by blast
  qed
  show ?thesis unfolding sched_inv_def by (intro conjI c1 c2 c3 c4 c5 c6 c7 c8 c9)
qed

text \<open>An arrival process starts at the time of the iteration that created it.\<close>

lemma sched_inv_init_arrival_day:
  assumes inv: "sched_inv cfg s" and e: "e \<in> set (env_queue s)"
    and i: "event_of e = Init_arrival r k l"
  obtains n where "time_of e = real n" "int n < days cfg"
proof -
  from sched_inv_queue(2) [OF inv] obtain e' where e': "e' \<in> set (env_queue s)" "is_daily e'"
    by blast
  have "event_of e' \<noteq> Init_daily"
  proof
    assume "event_of e' = Init_daily"
    from sched_invD(4) [OF inv e'(1) this] e i show False by auto
  qed
  with e'(2) obtain d where d: "event_of e' = Wake_daily d"
    by (cases "event_of e'") (simp_all add: is_daily_def)
  have "time_of e = env_now s" using sched_invD(5) [OF inv e i] by simp
  moreover have "env_now s = real d - 1" using sched_inv_init_day [OF inv e e'(1) i d] .
  moreover have "0 < d" "int d \<le> days cfg" using sched_invD(3) [OF inv e'(1) d] by simp_all
  ultimately have "time_of e = real (d - 1)" "int (d - 1) < days cfg" by (simp_all add: of_nat_diff)
  then show thesis by (rule that)
qed

lemma sched_inv_step:
  assumes big: "days cfg \<le> 2 ^ 53" and horizon: "0 < days cfg"
    and inv: "sched_inv cfg s" and "step np cfg s = Running s'"
  shows "sched_inv cfg s'"
  using assms(4)
proof (cases rule: step_Running_cases)
  case (finished t p i q')
  show ?thesis
    by (rule sched_inv_keep [OF inv finished(1), where new = "[]"])
       (simp_all add: finished(2) is_daily_def)
next
  case (daily t p i ev q' d s1)
  from daily(4) obtain s4 where b: "body_step 3 (s\<lparr>env_now := t, env_queue := q'\<rparr>) s4"
    and s1: "s1 = record_row d s4"
    by (rule daily_iteration_body)
  show ?thesis
    by (rule sched_inv_daily [OF big inv horizon daily(1,2) b]) (simp add: daily(5) s1)
next
  case (daily_end t p i ev q' d)
  from sched_inv_daily_pop(2) [OF inv horizon daily_end(1,2)] daily_end(3)
  show ?thesis by simp
next
  case (init_arrival t p i q' r quantity lead)
  have m: "(t, p, i, Init_arrival r quantity lead) \<in> set (env_queue s)"
    using heappop_Some(1) [OF init_arrival(1)] .
  from sched_inv_init_arrival_day [OF inv m] obtain n where n: "t = real n" "int n < days cfg"
    by auto
  then have "int n \<le> 2 ^ 53" using big by simp
  then have "t \<le> fadd t lead" using fadd_ge_day [OF _ init_arrival(2), of n] n(1) by simp
  then show ?thesis
    by (intro sched_inv_keep [OF inv init_arrival(1),
          where new = "[(fadd t lead, NORMAL, env_eid s, Wake_arrival r quantity lead t)]"])
       (auto simp: init_arrival(3) schedule_def is_daily_def)
next
  case (wake_arrival t p i q' r quantity lead born)
  show ?thesis
    by (intro sched_inv_keep [OF inv wake_arrival(1),
          where new = "[(t, NORMAL, env_eid s, Process_done)]"])
       (auto simp: wake_arrival(2) schedule_def deliver_env is_daily_def)
qed

lemma sched_inv_launch: "0 < days cfg \<Longrightarrow> sched_inv cfg (launch np entropy cfg)"
  by (simp add: sched_inv_def launch_def start_sim_def initial_sim_def schedule_def is_daily_def)

lemma sched_inv_steps:
  assumes "days cfg \<le> 2 ^ 53" and "0 < days cfg"
    and "sched_inv cfg s" and "steps np cfg n s = Running s'"
  shows "sched_inv cfg s'"
  using assms(3,4)
proof (induction n arbitrary: s)
  case 0
  then show ?case by simp
next
  case (Suc n)
  then obtain s1 where s1: "step np cfg s = Running s1" "steps np cfg n s1 = Running s'"
    by (cases "step np cfg s") auto
  from Suc.IH [OF sched_inv_step [OF assms(1,2) Suc.prems(1) s1(1)] s1(2)] show ?case .
qed

lemma two_day_boundary:
  "steps counting_generator two_day_config 2 (launch counting_generator 0 two_day_config) =
     Running boundary_state"
  by (simp add: numeral_2_eq_2 run_defs launch_def boundary_state_def eval_nat_numeral)

lemma boundary_pop:
  "heappop (env_queue boundary_state) =
     Some ((1, NORMAL, 3, Wake_daily 1),
           [(2, URGENT, 1, Until), (1, NORMAL, 4, Wake_arrival Store_actor 90 1 0)])"
  by (simp add: boundary_state_def heappop_def URGENT_def NORMAL_def)

lemma tie_boundary:
  "steps counting_generator tie_config 3 (launch counting_generator 0 tie_config) =
     Running tie_boundary_state"
  by (simp add: numeral_3_eq_3 run_defs launch_def tie_config_def tie_boundary_state_def)

lemma tie_boundary_pop:
  "heappop (env_queue tie_boundary_state) =
     Some ((2, NORMAL, 4, Wake_daily 2),
           [(3, URGENT, 1, Until), (2, NORMAL, 5, Wake_arrival Store_actor 90 (1 - 1 / 2 ^ 53) 1)])"
  by (simp add: tie_boundary_state_def heappop_def URGENT_def NORMAL_def)

lemma tie_after:
  "steps counting_generator tie_config 4 (launch counting_generator 0 tie_config) =
     Running tie_after_state"
  by (simp add: eval_nat_numeral run_defs launch_def tie_config_def tie_after_state_def)

lemma tie_after_pop:
  "heappop (env_queue tie_after_state) =
     Some ((2, NORMAL, 5, Wake_arrival Store_actor 90 (1 - 1 / 2 ^ 53) 1),
           [(3, URGENT, 1, Until), (3, NORMAL, 6, Wake_daily 3)])"
  by (simp add: tie_after_state_def heappop_def URGENT_def NORMAL_def)

lemma tie_run:
  "(case run_single counting_generator 0 tie_config of
      Inl e \<Rightarrow> []
    | Inr result \<Rightarrow> map (\<lambda>r. (day r, store_on_hand r, store_on_order r)) (res_timeseries result)) =
     [(0, 70, 0), (1, 40, 90), (2, 10, 90)]"
  by (simp add: run_defs tie_config_def)

text \<open>
  The replication loop collects one KPI record per index, in order, and stops at the
  first replication that fails.
\<close>

lemma mc_loop_ok:
  assumes "\<forall>i \<in> set idx. \<exists>result. run_single np (entropy i) (replication_config cfg i) = Inr result"
  shows "\<exists>new. mc_loop np entropy cfg reps cb idx (samples, calls) =
           Inr (samples @ new,
                calls @ (if cb then map (\<lambda>i. real (i + 1) / real_of_int reps) idx else [])) \<and>
         list_all2 (\<lambda>i k. \<exists>result. run_single np (entropy i) (replication_config cfg i) = Inr result \<and>
                              k = res_kpis result) idx new"
  using assms
proof (induction idx arbitrary: samples calls)
  case Nil
  then show ?case by simp
next
  case (Cons i rest)
  from Cons.prems obtain result where r: "run_single np (entropy i) (replication_config cfg i) = Inr result"
    by auto
  have "\<forall>j \<in> set rest. \<exists>result. run_single np (entropy j) (replication_config cfg j) = Inr result"
    using Cons.prems by simp
  from Cons.IH [OF this, of "samples @ [res_kpis result]"
      "if cb then calls @ [real (i + 1) / real_of_int reps] else calls"]
  obtain new where new:
    "mc_loop np entropy cfg reps cb rest
       (samples @ [res_kpis result], if cb then calls @ [real (i + 1) / real_of_int reps] else calls) =
     Inr ((samples @ [res_kpis result]) @ new,
          (if cb then calls @ [real (i + 1) / real_of_int reps] else calls) @
          (if cb then map (\<lambda>i. real (i + 1) / real_of_int reps) rest else []))"
    "list_all2 (\<lambda>i k. \<exists>result. run_single np (entropy i) (replication_config cfg i) = Inr result \<and>
                              k = res_kpis result) rest new"
    by blast
  show ?case
  proof (intro exI [of _ "res_kpis result # new"] conjI)
    show "mc_loop np entropy cfg reps cb (i # rest) (samples, calls) =
        Inr (samples @ res_kpis result # new,
             calls @ (if cb then map (\<lambda>i. real (i + 1) / real_of_int reps) (i # rest) else []))"
      using r new(1) by simp
    show "list_all2 (\<lambda>i k. \<exists>result. run_single np (entropy i) (replication_config cfg i) = Inr result \<and>
                              k = res_kpis result) (i # rest) (res_kpis result # new)"
      using r new(2) by simp
  qed
qed

lemma mc_loop_fails:
  assumes "\<exists>i \<in> set idx. \<exists>e. run_single np (entropy i) (replication_config cfg i) = Inl e"
  shows "\<exists>e. mc_loop np entropy cfg reps cb idx (samples, calls) = Inl e"
  using assms
proof (induction idx arbitrary: samples calls)
  case Nil
  then show ?case by simp
next
  case (Cons i rest)
  show ?case
  proof (cases "run_single np (entropy i) (replication_config cfg i)")
    case (Inl e)
    then show ?thesis by simp
  next
    case (Inr result)
    with Cons.prems have "\<exists>j \<in> set rest. \<exists>e. run_single np (entropy j) (replication_config cfg j) = Inl e"
      by auto
    from Cons.IH [OF this] Inr show ?thesis by simp
  qed
qed

lemma mc_loop_length:
  assumes "mc_loop np entropy cfg reps cb idx (samples, calls) = Inr (samples', calls')"
  shows "length samples' = length samples + length idx"
  using assms
proof (induction idx arbitrary: samples calls)
  case Nil
  then show ?case by simp
next
  case (Cons i rest)
  then show ?case by (auto split: sum.splits)
qed

lemma seeded_replications:
  "\<exists>result. run_single seeded_generator 0 (replication_config two_day_config 0) = Inr result \<and>
     res_kpis result = sample_a"
  "\<exists>result. run_single seeded_generator 0 (replication_config two_day_config 1) = Inr result \<and>
     res_kpis result = sample_b"
  by (simp_all add: run_defs seeded_generator_def replication_config_def sample_a_def sample_b_def)

lemma seeded_mc_loop:
  "mc_loop seeded_generator (\<lambda>i. 0) two_day_config reps cb [0..<2] ([], []) =
     Inr ([sample_a, sample_b],
          if cb then [1 / real_of_int reps, 2 / real_of_int reps] else [])"
proof -
  have idx: "[0..<2] = [0, Suc 0]" by (simp add: upt_rec numeral_2_eq_2)
  from seeded_replications obtain ra rb where
    "run_single seeded_generator 0 (replication_config two_day_config 0) = Inr ra" "res_kpis ra = sample_a"
    "run_single seeded_generator 0 (replication_config two_day_config 1) = Inr rb" "res_kpis rb = sample_b"
    by blast
  then show ?thesis unfolding idx by simp
qed

lemma seeded_mc_loop_1:
  "mc_loop seeded_generator (\<lambda>i. 0) two_day_config reps cb [0..<1] ([], []) =
     Inr ([sample_a], if cb then [1 / real_of_int reps] else [])"
proof -
  from seeded_replications obtain ra where
    "run_single seeded_generator 0 (replication_config two_day_config 0) = Inr ra" "res_kpis ra = sample_a"
    by blast
  then show ?thesis by simp
qed

lemma map_fields:
  "map (\<lambda>(k, v). (k, F v)) (map (\<lambda>(field, get). (field, map get samples)) fs) =
     map (\<lambda>(field, get). (field, F (map get samples))) fs"
  by (induction fs) auto

section \<open>Properties\<close>

text \<open>
  C4. The (s, S) policy fails with the policy error whenever \<open>s > S\<close>; otherwise it
  orders \<open>max 0 (S - inventory_position)\<close> at or below the reorder point and nothing
  above it. The three examples of the test suite are part of the statement.
\<close>

theorem order_up_to_sS_spec:
  "(s > S \<longrightarrow> order_up_to_sS ip s S = Inl (ValueError ''Policy requires s <= S'')) \<and>
   (s \<le> S \<and> ip \<le> s \<longrightarrow> order_up_to_sS ip s S = Inr (max 0 (S - ip))) \<and>
   (s \<le> S \<and> ip > s \<longrightarrow> order_up_to_sS ip s S = Inr 0) \<and>
   order_up_to_sS 50 80 160 = Inr 110 \<and>
   order_up_to_sS 81 80 160 = Inr 0 \<and>
   order_up_to_sS 0 10 5 = Inl (ValueError ''Policy requires s <= S'')"
  by (simp add: order_up_to_sS_def)

theorem order_up_to_sS_spec_witness:
  "order_up_to_sS 3 7 2 = Inl (ValueError ''Policy requires s <= S'') \<and>
   order_up_to_sS 4 5 9 = Inr 5 \<and>
   order_up_to_sS 12 5 9 = Inr 0"
  using order_up_to_sS_spec [where s = 7 and S = 2 and ip = 3]
    order_up_to_sS_spec [where s = 5 and S = 9 and ip = 4]
    order_up_to_sS_spec [where s = 5 and S = 9 and ip = 12]
  by simp

text \<open>
  C3. \<open>consume_demand\<close> clamps the quantity to \<open>max 0 qty\<close>, adds the clamped quantity
  to \<open>demand_units\<close>, fulfils \<open>min on_hand qty\<close> (off \<open>on_hand\<close>, onto
  \<open>fulfilled_units\<close>), adds the unmet remainder to \<open>backorder\<close>, and increments
  \<open>stockout_days\<close> by exactly 1, whatever the unmet magnitude, if and only if the
  remainder is positive. Nothing else of the store changes.
\<close>

theorem consume_demand_spec:
  fixes st :: store and qty :: int
  defines "q \<equiv> max 0 qty"
  defines "fulfilled \<equiv> min (on_hand (inventory st)) q"
  defines "unmet \<equiv> q - fulfilled"
  defines "st' \<equiv> consume_demand st qty"
  shows "demand_units st' = demand_units st + q \<and>
         on_hand (inventory st') = on_hand (inventory st) - fulfilled \<and>
         fulfilled_units st' = fulfilled_units st + fulfilled \<and>
         backorder (inventory st') = backorder (inventory st) + (if unmet > 0 then unmet else 0) \<and>
         stockout_days st' = stockout_days st + (if unmet > 0 then 1 else 0) \<and>
         on_order (inventory st') = on_order (inventory st) \<and>
         orders_placed st' = orders_placed st"
  unfolding q_def fulfilled_def unmet_def st'_def
  by (auto simp: consume_demand_def Let_def min_def max_def)

text \<open>
  C5 does not hold of the code on every positive mean and non-negative standard
  deviation, although the docstring of \<^verbatim>\<open>lognormal_days\<close> promises a non-negative
  lead time. With \<^verbatim>\<open>mean_days = 2**-600\<close> and \<^verbatim>\<open>std_days = 1.0\<close> the square of the
  mean underflows to \<^verbatim>\<open>0.0\<close> and the division by it raises
  \<^verbatim>\<open>ZeroDivisionError\<close>: no draw is returned, and the error is not the parameter
  error. With \<^verbatim>\<open>mean_days = 1.0\<close> and \<^verbatim>\<open>std_days = 2**600\<close> the square of the
  standard deviation overflows, and the parameters handed to the library's draw are
  \<^verbatim>\<open>mu = -inf\<close> and \<^verbatim>\<open>sigma = inf\<close>.
\<close>

theorem lognormal_days_underflow:
  "lognormal_days np g (2 powr (- 600)) 1 = Inl ZeroDivisionError \<and>
   lognormal_mu_sigma_from_mean_std 1 (2 powr 600) = Inr (NegInf, PosInf)"
proof
  show "lognormal_days np g (2 powr (- 600)) 1 = Inl ZeroDivisionError"
    by (rule lognormal_days_zero_division [OF _ _ mean_square_underflows]) simp_all
  show "lognormal_mu_sigma_from_mean_std 1 (2 powr 600) = Inr (NegInf, PosInf)"
    by (rule lognormal_infinite_sigma [OF _ std_square_overflows]) simp
qed

text \<open>
  C6. With valid parameters and a zero probability or a zero delay,
  \<open>disruption_delay\<close> returns exactly 0 and hands back the generator state it was
  given, so every later draw equals the draw of a run that never made the call. A
  probability outside \<open>[0, 1]\<close> or a negative delay is rejected with a
  \<^verbatim>\<open>ValueError\<close>; the validation comes before the short cut.
\<close>

theorem disruption_delay_spec:
  "(0 \<le> p \<and> p \<le> 1 \<and> 0 \<le> d \<and> (p = 0 \<or> d = 0) \<longrightarrow> disruption_delay np g p d = Inr (0, g)) \<and>
   (p < 0 \<or> p > 1 \<longrightarrow>
      disruption_delay np g p d = Inl (ValueError ''disruption_probability_per_shipment must be in [0,1]'')) \<and>
   (0 \<le> p \<and> p \<le> 1 \<and> d < 0 \<longrightarrow>
      disruption_delay np g p d = Inl (ValueError ''disruption_delay_days must be >= 0''))"
  by (auto simp: disruption_delay_def)

theorem disruption_delay_spec_witness:
  "disruption_delay counting_generator 7 0 3 = Inr (0, 7) \<and>
   disruption_delay counting_generator 7 (1 / 2) 0 = Inr (0, 7) \<and>
   disruption_delay counting_generator 7 2 3 =
     Inl (ValueError ''disruption_probability_per_shipment must be in [0,1]'') \<and>
   disruption_delay counting_generator 7 (1 / 2) (-3) =
     Inl (ValueError ''disruption_delay_days must be >= 0'')"
  using disruption_delay_spec [where np = counting_generator and g = 7 and p = 0 and d = 3]
    disruption_delay_spec [where np = counting_generator and g = 7 and p = "1 / 2" and d = 0]
    disruption_delay_spec [where np = counting_generator and g = 7 and p = 2 and d = 3]
    disruption_delay_spec [where np = counting_generator and g = 7 and p = "1 / 2" and d = "-3"]
  by simp

text \<open>
  C7. For a horizon of at least one day and non-negative initial on-hand at both
  locations, every completed \<open>run_single\<close> has non-negative store on-hand, DC on-hand
  and store backorder in every recorded row, \<open>0 \<le> fulfilled_units \<le> demand_units\<close>,
  and a service level and a fill rate in \<open>[0, 1]\<close>.
\<close>

theorem run_single_invariants:
  assumes "1 \<le> days cfg" and "0 \<le> initial_on_hand_store cfg" and "0 \<le> initial_on_hand_dc cfg"
    and "run_single np entropy cfg = Inr result"
  shows "list_all (\<lambda>r. 0 \<le> store_on_hand r \<and> 0 \<le> dc_on_hand r \<and> 0 \<le> store_backorder r)
           (res_timeseries result) \<and>
         0 \<le> kpi_fulfilled_units (res_kpis result) \<and>
         kpi_fulfilled_units (res_kpis result) \<le> kpi_demand_units (res_kpis result) \<and>
         0 \<le> kpi_service_level (res_kpis result) \<and> kpi_service_level (res_kpis result) \<le> 1 \<and>
         0 \<le> kpi_fill_rate (res_kpis result) \<and> kpi_fill_rate (res_kpis result) \<le> 1"
proof -
  let ?s0 = "schedule Until URGENT (real_of_int (days cfg) - env_now (start_sim np entropy cfg))
               (start_sim np entropy cfg)"
  from assms(4) obtain s where run: "run_loop np cfg ?s0 = Inr s"
    and res: "result = \<lparr>res_config = cfg,
        res_kpis = compute_kpis cfg (sim_store s) (sim_dc s) (timeseries s),
        res_timeseries = timeseries s\<rparr>"
    by (auto simp: run_single_def env_run_def split: sum.splits if_splits)
  have inv: "stock_ok s" "list_all row_ok (timeseries s)"
      "stockout_days (sim_store s) \<le> int (length (timeseries s))"
      "int (length (timeseries s)) \<le> days cfg"
    using run_loop_inv [OF run_inv_launch [OF assms(1-3)] run] by simp_all
  have rows: "list_all (\<lambda>r. 0 \<le> store_on_hand r \<and> 0 \<le> dc_on_hand r \<and> 0 \<le> store_backorder r)
                (timeseries s)"
    using inv(2) by (simp add: row_ok_def [abs_def])
  have ful: "0 \<le> fulfilled_units (sim_store s)" "fulfilled_units (sim_store s) \<le> demand_units (sim_store s)"
      and so: "0 \<le> stockout_days (sim_store s)" "stockout_days (sim_store s) \<le> days cfg"
    using inv(1,3,4) by (simp_all add: stock_ok_def)
  have sl: "0 \<le> kpi_service_level (res_kpis result) \<and> kpi_service_level (res_kpis result) \<le> 1"
    using so assms(1) unfolding res by (simp add: compute_kpis_def)
  have fr: "0 \<le> kpi_fill_rate (res_kpis result) \<and> kpi_fill_rate (res_kpis result) \<le> 1"
    using ful unfolding res by (simp add: compute_kpis_def)
  show ?thesis using rows ful sl fr unfolding res by (simp add: compute_kpis_def)
qed

theorem run_single_invariants_witness:
  "\<exists>result. run_single counting_generator 0 two_day_config = Inr result \<and>
     res_timeseries result \<noteq> [] \<and>
     list_all (\<lambda>r. 0 \<le> store_on_hand r \<and> 0 \<le> dc_on_hand r \<and> 0 \<le> store_backorder r)
       (res_timeseries result) \<and>
     0 \<le> kpi_fulfilled_units (res_kpis result) \<and>
     kpi_fulfilled_units (res_kpis result) \<le> kpi_demand_units (res_kpis result) \<and>
     0 \<le> kpi_service_level (res_kpis result) \<and> kpi_service_level (res_kpis result) \<le> 1 \<and>
     0 \<le> kpi_fill_rate (res_kpis result) \<and> kpi_fill_rate (res_kpis result) \<le> 1"
proof -
  have a: "1 \<le> days two_day_config" "0 \<le> initial_on_hand_store two_day_config"
      "0 \<le> initial_on_hand_dc two_day_config"
    by (simp_all add: two_day_config_def)
  from run_single_invariants [OF a two_day_run] two_day_run show ?thesis by simp
qed

text \<open>
  C2, as the code has it. A run that completes has a horizon of at least one day and
  reports \<open>service_level = 1 - stockout_days / days\<close>. For \<open>days \<le> 0\<close> the guard in
  the KPI expression replaces the ratio by 0, so the expression is 1 (not 0), and no
  result is reported at all: the environment rejects a stop time that is not ahead of
  the current time.
\<close>

theorem run_single_service_level:
  "(run_single np entropy cfg = Inr result \<longrightarrow>
      0 < days cfg \<and>
      kpi_service_level (res_kpis result) =
        1 - real_of_int (kpi_stockout_days (res_kpis result)) / real_of_int (days cfg)) \<and>
   (days cfg \<le> 0 \<longrightarrow>
      run_single np entropy cfg = Inl (ValueError ''until must be > the current simulation time'') \<and>
      kpi_service_level (compute_kpis cfg st dc ts) = 1)"
  by (auto simp: run_single_launch compute_kpis_def split: sum.splits if_splits)

theorem run_single_service_level_witness:
  "(\<exists>result. run_single counting_generator 0 two_day_config = Inr result \<and>
      kpi_service_level (res_kpis result) = 1 - real_of_int (kpi_stockout_days (res_kpis result)) / 2) \<and>
   run_single counting_generator 0 zero_day_config =
     Inl (ValueError ''until must be > the current simulation time'')"
proof -
  have "days zero_day_config \<le> 0" "days two_day_config = 2"
    by (simp_all add: zero_day_config_def two_day_config_def)
  then show ?thesis
    using run_single_service_level [where np = counting_generator and entropy = 0
        and cfg = two_day_config]
      run_single_service_level [where np = counting_generator and entropy = 0
        and cfg = zero_day_config]
      two_day_run
    by simp
qed

text \<open>
  The claim as stated fails for \<open>days = 0\<close>: the run raises, and the KPI expression
  evaluates to 1.
\<close>

theorem service_level_zero_days_counterexample:
  "run_single counting_generator 0 zero_day_config =
     Inl (ValueError ''until must be > the current simulation time'') \<and>
   kpi_service_level
     (compute_kpis zero_day_config
        (sim_store (start_sim counting_generator 0 zero_day_config))
        (sim_dc (start_sim counting_generator 0 zero_day_config)) []) = 1"
  by (simp add: run_single_launch zero_day_config_def two_day_config_def compute_kpis_def)

text \<open>
  C1, as the code has it. When the daily process is about to run the iteration of day
  \<open>d\<close> (which draws that day's demand first), the simulated time is \<open>d\<close>, no arrival
  process is waiting to start, and every arrival still pending is due strictly after
  \<open>d\<close>, or due exactly at \<open>d\<close> and scheduled during the iteration of day \<open>d - 1\<close>. So
  every arrival due strictly before the boundary, and every arrival due exactly at the
  boundary that was scheduled on day \<open>d - 2\<close> or earlier, has been applied before the
  demand of day \<open>d\<close> is drawn. An arrival due exactly at the boundary \<open>d\<close> that was
  scheduled on day \<open>d - 1\<close> is applied only after the iteration of day \<open>d\<close> has
  recorded its row. The due time is the time of the arrival's timeout in the heap, the
  float sum of the scheduling time and the lead time; the horizon is at most
  \<^verbatim>\<open>2**53\<close> days, so that every day boundary is a float.
\<close>

theorem arrivals_before_demand:
  assumes horizon: "0 < days cfg" and big: "days cfg \<le> 2 ^ 53"
    and reach: "steps np cfg n (launch np entropy cfg) = Running s"
    and pop: "heappop (env_queue s) = Some ((t, p, i, ev), q')"
  shows "(daily_index ev = Some d \<longrightarrow>
            t = real d \<and>
            (\<forall>e \<in> set q'.
               (\<forall>r k l. event_of e \<noteq> Init_arrival r k l) \<and>
               (\<forall>r k l b. event_of e = Wake_arrival r k l b \<longrightarrow>
                  real d < time_of e \<or> (time_of e = real d \<and> b = real d - 1)))) \<and>
         (ev = Wake_arrival r k l b \<and> b = real d - 1 \<and> t = real d \<longrightarrow>
            d < length (timeseries s))"
proof (intro conjI impI)
  have inv: "sched_inv cfg s"
    using sched_inv_steps [OF big horizon sched_inv_launch [OF horizon] reach] .
  note hp = heappop_Some [OF pop]
  {
    assume "daily_index ev = Some d"
    then have ev: "ev = Init_daily \<and> d = 0 \<or> ev = Wake_daily d" by (cases ev) simp_all
    note dp = sched_inv_daily_pop [OF inv horizon pop ev]
    show "t = real d" by (rule dp(1))
    show "\<forall>e \<in> set q'.
        (\<forall>r k l. event_of e \<noteq> Init_arrival r k l) \<and>
        (\<forall>r k l b. event_of e = Wake_arrival r k l b \<longrightarrow>
           real d < time_of e \<or> (time_of e = real d \<and> b = real d - 1))"
    proof (intro ballI conjI allI impI)
      fix e r k l assume "e \<in> set q'"
      then show "event_of e \<noteq> Init_arrival r k l" by (rule dp(5))
    next
      fix e r k l b assume "e \<in> set q'" "event_of e = Wake_arrival r k l b"
      from dp(6) [OF this] show "real d < time_of e \<or> (time_of e = real d \<and> b = real d - 1)"
        by auto
    qed
  }
  {
    assume a: "ev = Wake_arrival r k l b \<and> b = real d - 1 \<and> t = real d"
    then have ev: "ev = Wake_arrival r k l (real d - 1)" and t: "t = real d"
      by simp_all
    have m: "event_of (t, p, i, ev) = Wake_arrival r k l (real d - 1)" using ev by simp
    from sched_inv_queue(2) [OF inv] obtain e' where e': "e' \<in> set (env_queue s)" "is_daily e'"
      by blast
    obtain te pe ie eve where e'_eq: "e' = (te, pe, ie, eve)" by (cases e')
    have "eve \<noteq> Init_daily"
    proof
      assume "eve = Init_daily"
      then have "env_queue s = [(0, URGENT, 0, Init_daily), (real_of_int (days cfg), URGENT, 1, Until)]"
        using sched_invD(4) [OF inv e'(1)] e'_eq by simp
      with hp(1) ev show False by simp
    qed
    with e'(2) e'_eq obtain d' where d': "event_of e' = Wake_daily d'"
      by (cases eve) (simp_all add: is_daily_def)
    have len: "d' = length (timeseries s)" using sched_invD(7) [OF inv e'(1), of d'] d' by simp
    have w: "te = real d'" "pe = NORMAL" using sched_invD(3) [OF inv e'(1) d'] e'_eq by simp_all
    have pn: "p = NORMAL" using sched_invD(6) [OF inv hp(1) m] by simp
    note o = sched_inv_order [OF inv hp(1) e'(1) m d']
    have nl: "\<not> entry_less e' (t, p, i, ev)" using hp(3) e'(1) by blast
    have "d \<noteq> d'"
    proof
      assume "d = d'"
      with o(3) e'_eq have "ie < i" by simp
      with nl e'_eq w pn t \<open>d = d'\<close> show False by simp
    qed
    moreover have "d \<le> d'" using o(1) by simp
    ultimately show "d < length (timeseries s)" using len by simp
  }
qed

text \<open>
  The theorem at a tie made by rounding: the shipment scheduled on day 1 with a lead time
  of \<^verbatim>\<open>0.9999999999999999\<close> is due at \<^verbatim>\<open>2.0\<close>, the daily process runs day 2 first,
  and the row of day 2 still shows the 90 units on order.
\<close>

theorem arrivals_before_demand_witness:
  "steps counting_generator tie_config 3 (launch counting_generator 0 tie_config) =
     Running tie_boundary_state \<and>
   heappop (env_queue tie_boundary_state) =
     Some ((2, NORMAL, 4, Wake_daily 2),
           [(3, URGENT, 1, Until), (2, NORMAL, 5, Wake_arrival Store_actor 90 (1 - 1 / 2 ^ 53) 1)]) \<and>
   steps counting_generator tie_config 4 (launch counting_generator 0 tie_config) =
     Running tie_after_state \<and>
   heappop (env_queue tie_after_state) =
     Some ((2, NORMAL, 5, Wake_arrival Store_actor 90 (1 - 1 / 2 ^ 53) 1),
           [(3, URGENT, 1, Until), (3, NORMAL, 6, Wake_daily 3)]) \<and>
   2 < length (timeseries tie_after_state) \<and>
   (case run_single counting_generator 0 tie_config of
      Inl e \<Rightarrow> []
    | Inr result \<Rightarrow> map (\<lambda>r. (day r, store_on_hand r, store_on_order r)) (res_timeseries result)) =
     [(0, 70, 0), (1, 40, 90), (2, 10, 90)]"
proof -
  have h: "0 < days tie_config" "days tie_config \<le> 2 ^ 53"
    by (simp_all add: tie_config_def two_day_config_def)
  from arrivals_before_demand [OF h tie_boundary tie_boundary_pop, of 2]
    arrivals_before_demand [OF h tie_after tie_after_pop,
      where d = 2 and r = Store_actor and k = 90 and l = "1 - 1 / 2 ^ 53" and b = 1]
    tie_boundary tie_boundary_pop tie_after tie_after_pop tie_run
  show ?thesis by simp
qed

text \<open>
  The claim as stated fails when an arrival is due exactly at a day boundary and was
  scheduled the day before: with a lead time of exactly one day the shipment ordered on
  day 0 is due at time 1, yet the daily process wakes first (its timeout was scheduled
  earlier, and events of equal time and priority are popped in scheduling order); the
  row of day 1 still shows the 90 units on order and an on-hand of 70 - 30 = 40.
\<close>

theorem arrivals_before_demand_counterexample:
  "steps counting_generator two_day_config 2 (launch counting_generator 0 two_day_config) =
     Running boundary_state \<and>
   heappop (env_queue boundary_state) =
     Some ((1, NORMAL, 3, Wake_daily 1),
           [(2, URGENT, 1, Until), (1, NORMAL, 4, Wake_arrival Store_actor 90 1 0)]) \<and>
   due_not_applied boundary_state = [(1, NORMAL, 4, Wake_arrival Store_actor 90 1 0)] \<and>
   (case run_single counting_generator 0 two_day_config of
      Inl e \<Rightarrow> []
    | Inr result \<Rightarrow> map (\<lambda>r. (day r, store_on_hand r, store_on_order r)) (res_timeseries result)) =
     [(0, 70, 90), (1, 40, 90)]"
  by (simp add: two_day_boundary boundary_pop due_not_applied_def two_day_run)

text \<open>
  C10. At every event boundary of a run, each receiver's \<open>on_order\<close> is the sum of the
  quantities of its arrival processes still in the heap, and hence non-negative;
  scheduling a shipment of positive quantity adds exactly that quantity to the
  receiver's \<open>on_order\<close> and one arrival event to the heap; delivery subtracts the
  quantity from that receiver only; and scheduling a quantity of at most 0 changes
  nothing (no state change, no draw, no event).
\<close>

theorem on_order_tracks_pipeline:
  "((steps np cfg n (launch np entropy cfg) = Running s \<or>
     steps np cfg n (launch np entropy cfg) = Stopped s) \<longrightarrow>
      on_order (receiver_inventory r s) = pipeline r (env_queue s) \<and>
      0 \<le> on_order (receiver_inventory r s)) \<and>
   (quantity \<le> 0 \<longrightarrow> schedule_inbound_shipment np cfg r quantity s0 = Inr s0) \<and>
   (0 < quantity \<and> schedule_inbound_shipment np cfg r quantity s0 = Inr s1 \<longrightarrow>
      on_order (receiver_inventory r s1) = on_order (receiver_inventory r s0) + quantity \<and>
      (\<exists>lead. env_queue s1 =
         env_queue s0 @ [(env_now s0, URGENT, env_eid s0, Init_arrival r quantity lead)])) \<and>
   on_order (receiver_inventory r' (deliver r quantity s0)) =
     on_order (receiver_inventory r' s0) - (if r' = r then quantity else 0)"
proof (intro conjI impI)
  assume reach: "steps np cfg n (launch np entropy cfg) = Running s \<or>
     steps np cfg n (launch np entropy cfg) = Stopped s"
  have inv: "pipeline_inv s" using pipeline_inv_steps [OF pipeline_inv_launch reach] .
  then show "on_order (receiver_inventory r s) = pipeline r (env_queue s)"
    unfolding pipeline_inv_def by blast
  moreover have "0 \<le> pipeline r (env_queue s)"
    using inv pipeline_nonneg unfolding pipeline_inv_def by blast
  ultimately show "0 \<le> on_order (receiver_inventory r s)" by simp
next
  assume "quantity \<le> 0"
  then show "schedule_inbound_shipment np cfg r quantity s0 = Inr s0"
    by (simp add: schedule_inbound_shipment_def)
next
  assume a: "0 < quantity \<and> schedule_inbound_shipment np cfg r quantity s0 = Inr s1"
  then obtain lead g2 where
    s1: "s1 = schedule (Init_arrival r quantity lead) URGENT 0
                ((add_on_order r quantity s0)\<lparr>random_generator := g2\<rparr>)"
    by (auto simp: schedule_inbound_shipment_def Let_def split: sum.splits prod.splits if_splits)
  show "on_order (receiver_inventory r s1) = on_order (receiver_inventory r s0) + quantity"
    unfolding s1
    by (cases r) (simp_all add: schedule_def add_on_order_def receiver_inventory_def)
  have "env_queue s1 = env_queue s0 @ [(env_now s0, URGENT, env_eid s0, Init_arrival r quantity lead)]"
    unfolding s1 by (cases r) (simp_all add: schedule_def add_on_order_def)
  then show "\<exists>lead. env_queue s1 =
      env_queue s0 @ [(env_now s0, URGENT, env_eid s0, Init_arrival r quantity lead)]" ..
next
  show "on_order (receiver_inventory r' (deliver r quantity s0)) =
     on_order (receiver_inventory r' s0) - (if r' = r then quantity else 0)"
    by (rule deliver_on_order)
qed

theorem on_order_tracks_pipeline_witness:
  "steps counting_generator two_day_config 2 (launch counting_generator 0 two_day_config) =
     Running boundary_state \<and>
   on_order (receiver_inventory Store_actor boundary_state) = 90 \<and>
   pipeline Store_actor (env_queue boundary_state) = 90 \<and>
   schedule_inbound_shipment counting_generator two_day_config Store_actor 0 boundary_state =
     Inr boundary_state \<and>
   on_order (receiver_inventory Store_actor
      (schedule (Init_arrival Store_actor 7 1) URGENT 0
         ((add_on_order Store_actor 7 boundary_state)\<lparr>random_generator := 1\<rparr>))) = 97"
proof -
  have sch: "schedule_inbound_shipment counting_generator two_day_config Store_actor 7 boundary_state =
      Inr (schedule (Init_arrival Store_actor 7 1) URGENT 0
             ((add_on_order Store_actor 7 boundary_state)\<lparr>random_generator := 1\<rparr>))"
    by (simp add: schedule_inbound_shipment_def lognormal_days_def
        lognormal_mu_sigma_from_mean_std_def disruption_delay_def two_day_config_def
        boundary_state_def add_on_order_def Let_def)
  have oo: "on_order (receiver_inventory Store_actor boundary_state) = 90"
    by (simp add: boundary_state_def receiver_inventory_def)
  from on_order_tracks_pipeline [where np = counting_generator and cfg = two_day_config and n = 2
      and entropy = 0 and s = boundary_state and r = Store_actor and quantity = 0
      and ?s0.0 = boundary_state]
    on_order_tracks_pipeline [where np = counting_generator and cfg = two_day_config
      and r = Store_actor and quantity = 7 and ?s0.0 = boundary_state
      and ?s1.0 = "schedule (Init_arrival Store_actor 7 1) URGENT 0
             ((add_on_order Store_actor 7 boundary_state)\<lparr>random_generator := 1\<rparr>)"]
    two_day_boundary sch oo
  show ?thesis by simp
qed

text \<open>
  C8. \<open>monte_carlo\<close> fails for a replication count below 1. Otherwise, when every
  replication completes, it returns the base configuration, a summary with
  \<open>replications = R\<close> and the \<open>R\<close> KPI records in order, where record \<open>i\<close> is the
  result of \<open>run_single\<close> on the base configuration with seed \<open>base_seed + i\<close> (no seed
  when the base has none), and the progress sink, if given, has been called with
  \<open>(i + 1) / R\<close> after each replication, in order. A failing replication fails the whole
  call.
\<close>

theorem monte_carlo_spec:
  "(reps < 1 \<longrightarrow>
      monte_carlo np entropy cfg reps cb = Inl (ValueError ''replications must be > 0'')) \<and>
   (1 \<le> reps \<and>
    (\<forall>i < nat reps. \<exists>result. run_single np (entropy i) (replication_config cfg i) = Inr result) \<longrightarrow>
      (\<exists>mc calls. monte_carlo np entropy cfg reps cb = Inr (mc, calls) \<and>
         mc_config mc = cfg \<and>
         replications (mc_summary mc) = reps \<and>
         length (mc_samples mc) = nat reps \<and>
         list_all2 (\<lambda>i k. \<exists>result. run_single np (entropy i) (replication_config cfg i) = Inr result \<and>
                              k = res_kpis result)
           [0..<nat reps] (mc_samples mc) \<and>
         calls = (if cb then map (\<lambda>i. real (i + 1) / real_of_int reps) [0..<nat reps] else []))) \<and>
   (1 \<le> reps \<and>
    (\<exists>i < nat reps. \<exists>e. run_single np (entropy i) (replication_config cfg i) = Inl e) \<longrightarrow>
      (\<exists>e. monte_carlo np entropy cfg reps cb = Inl e))"
proof (intro conjI impI)
  assume "reps < 1"
  then show "monte_carlo np entropy cfg reps cb = Inl (ValueError ''replications must be > 0'')"
    by (simp add: monte_carlo_def)
next
  assume a: "1 \<le> reps \<and>
    (\<forall>i < nat reps. \<exists>result. run_single np (entropy i) (replication_config cfg i) = Inr result)"
  then have all: "\<forall>i \<in> set [0..<nat reps].
      \<exists>result. run_single np (entropy i) (replication_config cfg i) = Inr result" by simp
  let ?calls = "if cb then map (\<lambda>i. real (i + 1) / real_of_int reps) [0..<nat reps] else []"
  from mc_loop_ok [OF all, of reps cb "[]" "[]"] obtain samples where
    loop: "mc_loop np entropy cfg reps cb [0..<nat reps] ([], []) = Inr (samples, ?calls)"
    and rel: "list_all2 (\<lambda>i k. \<exists>result. run_single np (entropy i) (replication_config cfg i) = Inr result \<and>
                              k = res_kpis result) [0..<nat reps] samples"
    by auto
  have len: "length samples = nat reps" using list_all2_lengthD [OF rel] by simp
  from a have "\<not> reps \<le> 0" by simp
  with loop obtain mc where mc: "monte_carlo np entropy cfg reps cb = Inr (mc, ?calls)"
      "mc_config mc = cfg" "replications (mc_summary mc) = reps" "mc_samples mc = samples"
    by (simp add: monte_carlo_def Let_def)
  from mc rel len show "\<exists>mc calls. monte_carlo np entropy cfg reps cb = Inr (mc, calls) \<and>
         mc_config mc = cfg \<and> replications (mc_summary mc) = reps \<and>
         length (mc_samples mc) = nat reps \<and>
         list_all2 (\<lambda>i k. \<exists>result. run_single np (entropy i) (replication_config cfg i) = Inr result \<and>
                              k = res_kpis result)
           [0..<nat reps] (mc_samples mc) \<and>
         calls = ?calls"
    by (intro exI [of _ mc] exI [of _ ?calls]) simp
next
  assume a: "1 \<le> reps \<and>
    (\<exists>i < nat reps. \<exists>e. run_single np (entropy i) (replication_config cfg i) = Inl e)"
  then have "\<exists>i \<in> set [0..<nat reps]. \<exists>e. run_single np (entropy i) (replication_config cfg i) = Inl e"
    by auto
  from mc_loop_fails [OF this, of reps cb "[]" "[]"] a
  show "\<exists>e. monte_carlo np entropy cfg reps cb = Inl e"
    by (auto simp: monte_carlo_def)
qed

theorem monte_carlo_spec_witness:
  "(\<exists>mc calls. monte_carlo seeded_generator (\<lambda>i. 0) two_day_config 2 True = Inr (mc, calls) \<and>
      replications (mc_summary mc) = 2 \<and> mc_samples mc = [sample_a, sample_b] \<and>
      calls = [1 / 2, 1]) \<and>
   monte_carlo seeded_generator (\<lambda>i. 0) two_day_config 0 True =
     Inl (ValueError ''replications must be > 0'') \<and>
   (\<exists>e. monte_carlo seeded_generator (\<lambda>i. 0) zero_day_config 3 True = Inl e)"
proof -
  have ok: "1 \<le> (2::int) \<and> (\<forall>i < nat 2. \<exists>result.
      run_single seeded_generator ((\<lambda>i. 0) i) (replication_config two_day_config i) = Inr result)"
  proof (intro conjI allI impI)
    fix i :: nat assume "i < nat 2"
    then have "i = 0 \<or> i = 1" by auto
    then show "\<exists>result. run_single seeded_generator ((\<lambda>i. 0) i) (replication_config two_day_config i) = Inr result"
      using seeded_replications by auto
  qed simp
  have bad: "1 \<le> (3::int) \<and> (\<exists>i < nat 3. \<exists>e.
      run_single seeded_generator ((\<lambda>i. 0) i) (replication_config zero_day_config i) = Inl e)"
    by (intro conjI exI [of _ 0]) (simp_all add: run_single_launch replication_config_def zero_day_config_def)
  have idx: "[0..<nat 2] = [0, Suc 0]" by (simp add: upt_rec)
  from monte_carlo_spec [of 2 seeded_generator "\<lambda>i. 0" two_day_config True] ok
  obtain mc calls where m: "monte_carlo seeded_generator (\<lambda>i. 0) two_day_config 2 True = Inr (mc, calls)"
      "replications (mc_summary mc) = 2"
      "calls = (if True then map (\<lambda>i. real (i + 1) / real_of_int 2) [0..<nat 2] else [])"
    by blast
  have c: "calls = [1 / 2, 1]" unfolding m(3) idx by simp
  have "mc_samples mc = [sample_a, sample_b]"
    using m(1) seeded_mc_loop [of 2 True] by (auto simp: monte_carlo_def Let_def)
  with m(1,2) c have 1: "\<exists>mc calls. monte_carlo seeded_generator (\<lambda>i. 0) two_day_config 2 True = Inr (mc, calls) \<and>
      replications (mc_summary mc) = 2 \<and> mc_samples mc = [sample_a, sample_b] \<and> calls = [1 / 2, 1]"
    by blast
  have 2: "monte_carlo seeded_generator (\<lambda>i. 0) two_day_config 0 True =
     Inl (ValueError ''replications must be > 0'')"
    using monte_carlo_spec [of 0 seeded_generator "\<lambda>i. 0" two_day_config True] by simp
  have 3: "\<exists>e. monte_carlo seeded_generator (\<lambda>i. 0) zero_day_config 3 True = Inl e"
    using monte_carlo_spec [of 3 seeded_generator "\<lambda>i. 0" zero_day_config True] bad by blast
  from 1 2 3 show ?thesis by blast
qed

text \<open>
  C9. In the summary of a completed \<open>monte_carlo\<close>, every KPI field's mean is the
  arithmetic mean of the \<open>R\<close> samples; its standard deviation is exactly 0 when
  \<open>R = 1\<close> and otherwise the root of the sum of squared deviations from that mean
  divided by \<open>R - 1\<close>.
\<close>

theorem monte_carlo_summary_statistics:
  assumes "monte_carlo np entropy cfg reps cb = Inr (mc, calls)"
  shows "1 \<le> reps \<and> length (mc_samples mc) = nat reps \<and>
         kpi_mean (mc_summary mc) =
           map (\<lambda>(field, get). (field, sum_list (map get (mc_samples mc)) / real_of_int reps)) kpi_fields \<and>
         kpi_std (mc_summary mc) =
           map (\<lambda>(field, get).
                  (field,
                   if reps = 1 then 0
                   else sqrt (sum_list (map (\<lambda>x. (x - sum_list (map get (mc_samples mc)) / real_of_int reps)\<^sup>2)
                                         (map get (mc_samples mc)))
                              / (real_of_int reps - 1))))
             kpi_fields"
proof -
  from assms have pos: "1 \<le> reps" by (auto simp: monte_carlo_def split: if_splits)
  with assms obtain samples where
    loop: "mc_loop np entropy cfg reps cb [0..<nat reps] ([], []) = Inr (samples, calls)"
    by (auto simp: monte_carlo_def Let_def split: sum.splits prod.splits)
  have len: "length samples = nat reps" using mc_loop_length [OF loop] by simp
  with pos have ne: "samples \<noteq> []" by auto
  have n: "real (length samples) = real_of_int reps" using len pos by simp
  from assms loop pos ne have mc: "mc_samples mc = samples"
    "kpi_mean (mc_summary mc) =
       map (\<lambda>(k, v). (k, np_mean v)) (map (\<lambda>(field, get). (field, map get samples)) kpi_fields)"
    "kpi_std (mc_summary mc) =
       map (\<lambda>(k, v). (k, if reps > 1 then np_std v 1 else 0))
         (map (\<lambda>(field, get). (field, map get samples)) kpi_fields)"
    by (auto simp: monte_carlo_def Let_def)
  have mean: "np_mean (map get samples) = sum_list (map get samples) / real_of_int reps" for get
    by (simp add: np_mean_def n)
  have std: "(if reps > 1 then np_std (map get samples) 1 else 0) =
      (if reps = 1 then 0
       else sqrt (sum_list (map (\<lambda>x. (x - sum_list (map get samples) / real_of_int reps)\<^sup>2) (map get samples))
                  / (real_of_int reps - 1)))" for get
    using pos by (auto simp: np_std_def np_mean_def n max_def)
  show ?thesis
    using pos len unfolding mc map_fields by (simp add: mean std)
qed

theorem monte_carlo_summary_statistics_witness:
  "(\<exists>mc calls. monte_carlo seeded_generator (\<lambda>i. 0) two_day_config 2 False = Inr (mc, calls) \<and>
      map_of (kpi_mean (mc_summary mc)) ''demand_units'' = Some 86 \<and>
      map_of (kpi_std (mc_summary mc)) ''demand_units'' = Some (sqrt 2)) \<and>
   (\<exists>mc calls. monte_carlo seeded_generator (\<lambda>i. 0) two_day_config 1 False = Inr (mc, calls) \<and>
      map snd (kpi_std (mc_summary mc)) = replicate 10 0 \<and>
      map_of (kpi_mean (mc_summary mc)) ''avg_on_hand_store'' = Some (73 / 2))"
proof -
  obtain mc2 calls2 where r2: "monte_carlo seeded_generator (\<lambda>i. 0) two_day_config 2 False = Inr (mc2, calls2)"
    and s2: "mc_samples mc2 = [sample_a, sample_b]"
    using seeded_mc_loop [of 2 False] by (simp add: monte_carlo_def Let_def)
  obtain mc1 calls1 where r1: "monte_carlo seeded_generator (\<lambda>i. 0) two_day_config 1 False = Inr (mc1, calls1)"
    and s1: "mc_samples mc1 = [sample_a]"
    using seeded_mc_loop_1 [of 1 False] by (simp add: monte_carlo_def Let_def)
  have a: "map_of (kpi_mean (mc_summary mc2)) ''demand_units'' = Some 86"
      "map_of (kpi_std (mc_summary mc2)) ''demand_units'' = Some (sqrt 2)"
    using monte_carlo_summary_statistics [OF r2]
    by (simp_all add: s2 kpi_fields_def sample_a_def sample_b_def)
  have b: "map snd (kpi_std (mc_summary mc1)) = replicate 10 0"
      "map_of (kpi_mean (mc_summary mc1)) ''avg_on_hand_store'' = Some (73 / 2)"
    using monte_carlo_summary_statistics [OF r1]
    by (simp_all add: s1 kpi_fields_def sample_a_def eval_nat_numeral)
  from r2 a r1 b show ?thesis by blast
qed

end
